theory Spec2Isabelle
  imports Main "HOL-Library.Word"
begin

unbundle bit_operations_syntax

section \<open>The RunCam device protocol engine (src/main/io/rcdevice.c)\<close>

text \<open>
  The development embeds the request/response engine of \<^verbatim>\<open>rcdevice.c\<close>: the ring of
  waiting response contexts, the transmit path, the timeout and retry supervisor
  \<^verbatim>\<open>getWaitingResponse\<close> and the receive loop \<^verbatim>\<open>rcdeviceReceive\<close>.
\<close>

subsection \<open>Data\<close>

text \<open>
  Bytes are \<^verbatim>\<open>uint8_t\<close>. Clock values are \<^verbatim>\<open>timeUs_t\<close>, an unsigned 32-bit integer:
  sums wrap around and comparisons are unsigned.
\<close>

type_synonym u8 = "8 word"
type_synonym timeUs_t = "32 word"

text \<open>
  Modelled from the spec: the macros of \<^verbatim>\<open>rcdevice.h\<close> and the function \<^verbatim>\<open>crc8_dvb_s2\<close> of
  \<^verbatim>\<open>common/crc.h\<close> are not part of the source file, and the specification fixes none of
  their values. Every function that depends on one of them takes the record \<open>h\<close> below:
  the capacity of the ring, the size of a context's receive array and of its parameter
  array, the frame header byte, the four command identifiers of the response-length table,
  and the CRC step function \<^verbatim>\<open>crc8_dvb_s2(crc, byte)\<close>.
\<close>

record rcdevice_h =
  MAX_WAITING_RESPONSES :: nat
  RCDEVICE_PROTOCOL_MAX_PACKET_SIZE :: nat
  RCDEVICE_PROTOCOL_MAX_DATA_SIZE :: nat
  RCDEVICE_PROTOCOL_HEADER :: u8
  RCDEVICE_PROTOCOL_COMMAND_GET_DEVICE_INFO :: u8
  RCDEVICE_PROTOCOL_COMMAND_5KEY_SIMULATION_PRESS :: u8
  RCDEVICE_PROTOCOL_COMMAND_5KEY_SIMULATION_RELEASE :: u8
  RCDEVICE_PROTOCOL_COMMAND_5KEY_CONNECTION :: u8
  crc8_dvb_s2 :: "u8 \<Rightarrow> u8 \<Rightarrow> u8"

text \<open>
  Modelled from the spec: the enumeration \<^verbatim>\<open>rcdeviceResponseStatus_e\<close> is declared in
  \<^verbatim>\<open>rcdevice.h\<close>. Its three enumerators are the ones the source file assigns; the first
  one is taken to have the value 0, which is what a zeroed \<open>result\<close> field holds.
\<close>

datatype rcdeviceResponseStatus_e =
  RCDEVICE_RESP_SUCCESS | RCDEVICE_RESP_INCORRECT_CRC | RCDEVICE_RESP_TIMEOUT

text \<open>
  Modelled from the spec: the protocol version tag of a context, also declared in
  \<^verbatim>\<open>rcdevice.h\<close>. The receive loop tests it against the two named versions with
  \<^verbatim>\<open>if ... else if ...\<close> and no final \<^verbatim>\<open>else\<close>; the third constructor stands for every
  other value of the field. The two named versions are different values.
\<close>

datatype rcdevice_protocol_version_e =
  RCDEVICE_PROTOCOL_RCSPLIT_VERSION | RCDEVICE_PROTOCOL_VERSION_1_0 | RCDEVICE_PROTOCOL_UNKNOWN

text \<open>
  Modelled from the spec: the struct of a response context is declared in \<^verbatim>\<open>rcdevice.h\<close>;
  its fields are the ones the source file reads and writes. \<open>recvBuf\<close> is the fixed receive
  array inside the context (a list whose length is the array's size). The two lengths are
  8-bit, as the result of \<^verbatim>\<open>runcamDeviceGetRespLen\<close> is. \<open>paramData\<close> is the parameter array
  together with \<^verbatim>\<open>paramDataLen\<close>: the list of the \<^verbatim>\<open>paramDataLen\<close> bytes copied at enqueue
  time. \<open>parserFunc\<close> and \<open>userInfo\<close> are pointers the engine never dereferences other
  than to call \<open>parserFunc\<close>: \<open>None\<close> is \<^verbatim>\<open>NULL\<close>, \<open>Some n\<close> an opaque address. The
  \<^verbatim>\<open>device\<close> pointer is left out: the model has one device, held in the world state below.
  \<open>maxRetryTimes\<close> is a C \<^verbatim>\<open>int\<close>; it is only ever decremented when positive, so it is
  an \<open>int\<close> here.
\<close>

record rcdeviceResponseParseContext_t =
  command :: u8
  expectedRespLen :: u8
  recvRespLen :: u8
  recvBuf :: "u8 list"
  timeout :: timeUs_t
  timeoutTimestamp :: timeUs_t
  parserFunc :: "nat option"
  paramData :: "u8 list"
  protocolVer :: rcdevice_protocol_version_e
  maxRetryTimes :: int
  userInfo :: "nat option"
  result :: rcdeviceResponseStatus_e

text \<open>
  Modelled from the spec: the struct of the ring is declared in \<^verbatim>\<open>rcdevice.h\<close>. \<open>buffer\<close> is
  the array of \<open>MAX_WAITING_RESPONSES\<close> context values; the head and tail positions and
  the count are indices, natural numbers here (the source file computes with them in
  \<^verbatim>\<open>int\<close>, and they stay at or below the capacity).
\<close>

record rcdeviceWaitingResponseQueue =
  headPos :: nat
  tailPos :: nat
  itemCount :: nat
  buffer :: "rcdeviceResponseParseContext_t list"

subsection \<open>The ring operations\<close>

text \<open>
  \<^verbatim>\<open>rcdeviceRespCtxQueuePushRespCtx\<close>: the returned boolean and the ring afterwards. The
  queue pointer is the address of the global ring and never \<^verbatim>\<open>NULL\<close>.
\<close>

definition rcdeviceRespCtxQueuePushRespCtx ::
  "rcdevice_h \<Rightarrow> rcdeviceWaitingResponseQueue \<Rightarrow> rcdeviceResponseParseContext_t
     \<Rightarrow> bool \<times> rcdeviceWaitingResponseQueue" where
  "rcdeviceRespCtxQueuePushRespCtx h queue respCtx =
     (if itemCount queue + 1 > MAX_WAITING_RESPONSES h \<or> tailPos queue \<ge> MAX_WAITING_RESPONSES h
      then (False, queue)
      else
        (let newTailPos = tailPos queue + 1;
             newTailPos = (if newTailPos \<ge> MAX_WAITING_RESPONSES h then 0 else newTailPos)
         in (True, queue\<lparr>buffer := (buffer queue)[tailPos queue := respCtx],
                          itemCount := itemCount queue + 1,
                          tailPos := newTailPos\<rparr>)))"

text \<open>
  \<^verbatim>\<open>rcdeviceRespCtxQueuePeekFront\<close> returns a pointer into the ring's array: the model
  returns the index of that slot, \<open>None\<close> for \<^verbatim>\<open>NULL\<close>.
\<close>

definition rcdeviceRespCtxQueuePeekFront ::
  "rcdevice_h \<Rightarrow> rcdeviceWaitingResponseQueue \<Rightarrow> nat option" where
  "rcdeviceRespCtxQueuePeekFront h queue =
     (if itemCount queue = 0 \<or> headPos queue \<ge> MAX_WAITING_RESPONSES h then None
      else Some (headPos queue))"

text \<open>\<^verbatim>\<open>rcdeviceRespCtxQueueShift\<close>: the slot that was at the head, and the ring afterwards.\<close>

definition rcdeviceRespCtxQueueShift ::
  "rcdevice_h \<Rightarrow> rcdeviceWaitingResponseQueue \<Rightarrow> nat option \<times> rcdeviceWaitingResponseQueue" where
  "rcdeviceRespCtxQueueShift h queue =
     (if itemCount queue = 0 \<or> headPos queue \<ge> MAX_WAITING_RESPONSES h then (None, queue)
      else
        (let newHeadPos = headPos queue + 1;
             newHeadPos = (if newHeadPos \<ge> MAX_WAITING_RESPONSES h then 0 else newHeadPos)
         in (Some (headPos queue),
             queue\<lparr>itemCount := itemCount queue - 1, headPos := newHeadPos\<rparr>)))"


subsection \<open>The device, the serial port and the callbacks\<close>

text \<open>
  What the engine does to the outside is recorded in a trace, in order: a frame handed to
  \<^verbatim>\<open>serialWriteBuf\<close>, and a call of a context's \<open>parserFunc\<close> with the value of the
  context at the moment of the call. The callbacks themselves belong to the callers of the
  engine; what they do with the context is outside the model.
\<close>

datatype event =
  Written "u8 list"
| Called nat rcdeviceResponseParseContext_t

text \<open>
  The state the engine works on: the global ring \<^verbatim>\<open>watingResponseQueue\<close>, whether the
  device's \<^verbatim>\<open>serialPort\<close> pointer is set, the bytes waiting in the port's receive buffer
  (oldest first), and the trace.
\<close>

record world =
  watingResponseQueue :: rcdeviceWaitingResponseQueue
  serialPort :: bool
  rxWaiting :: "u8 list"
  trace :: "event list"

text \<open>
  An out-of-bounds store or load is undefined behaviour in C. The model stops with one of
  these values instead of continuing.
\<close>

datatype undefined_behaviour = RecvBufOutOfBounds | ParamDataOutOfBounds

subsection \<open>The response-length table\<close>

definition expectedResponsesLength :: "rcdevice_h \<Rightarrow> (u8 \<times> u8) list" where
  "expectedResponsesLength h =
     [(RCDEVICE_PROTOCOL_COMMAND_GET_DEVICE_INFO h, 5),
      (RCDEVICE_PROTOCOL_COMMAND_5KEY_SIMULATION_PRESS h, 2),
      (RCDEVICE_PROTOCOL_COMMAND_5KEY_SIMULATION_RELEASE h, 2),
      (RCDEVICE_PROTOCOL_COMMAND_5KEY_CONNECTION h, 3)]"

text \<open>The loop of \<^verbatim>\<open>runcamDeviceGetRespLen\<close> over the table: the first matching entry.\<close>

fun runcamDeviceGetRespLen_loop :: "(u8 \<times> u8) list \<Rightarrow> u8 \<Rightarrow> u8" where
  "runcamDeviceGetRespLen_loop [] cmd = 0"
| "runcamDeviceGetRespLen_loop ((c, reponseLength) # es) cmd =
     (if c = cmd then reponseLength else runcamDeviceGetRespLen_loop es cmd)"

definition runcamDeviceGetRespLen :: "rcdevice_h \<Rightarrow> u8 \<Rightarrow> u8" where
  "runcamDeviceGetRespLen h cmd = runcamDeviceGetRespLen_loop (expectedResponsesLength h) cmd"

subsection \<open>The transmit path\<close>

text \<open>\<^verbatim>\<open>runcamDeviceFlushRxBuffer\<close>: reads and discards bytes while any is waiting.\<close>

fun flush_loop :: "u8 list \<Rightarrow> u8 list" where
  "flush_loop [] = []"
| "flush_loop (b # bs) = flush_loop bs"

definition runcamDeviceFlushRxBuffer :: "world \<Rightarrow> world" where
  "runcamDeviceFlushRxBuffer w = w\<lparr>rxWaiting := flush_loop (rxWaiting w)\<rparr>"

text \<open>
  Modelled from the spec: \<^verbatim>\<open>crc8_dvb_s2_sbuf_append\<close> (common/crc.c) is not part of the
  source file. Following section 4.1 of the specification it appends the checksum of all
  preceding bytes, computed with the step function from the initial value 0.
\<close>

definition crc8_dvb_s2_sbuf_append :: "rcdevice_h \<Rightarrow> u8 list \<Rightarrow> u8 list" where
  "crc8_dvb_s2_sbuf_append h bytes = bytes @ [foldl (crc8_dvb_s2 h) 0 bytes]"

text \<open>
  The frame \<^verbatim>\<open>runcamDeviceSendPacket\<close> assembles in the device's scratch buffer: header,
  command, parameter bytes, checksum. A \<^verbatim>\<open>NULL\<close> parameter pointer and a length of 0 both
  write no parameter byte, so the pointer and the length are one list.
\<close>

definition packet :: "rcdevice_h \<Rightarrow> u8 \<Rightarrow> u8 list \<Rightarrow> u8 list" where
  "packet h cmd params =
     crc8_dvb_s2_sbuf_append h ([RCDEVICE_PROTOCOL_HEADER h, cmd] @ params)"

definition runcamDeviceSendPacket :: "rcdevice_h \<Rightarrow> world \<Rightarrow> u8 \<Rightarrow> u8 list \<Rightarrow> world" where
  "runcamDeviceSendPacket h w cmd params =
     (if \<not> serialPort w then w
      else w\<lparr>trace := trace w @ [Written (packet h cmd params)]\<rparr>)"

text \<open>
  \<^verbatim>\<open>runcamDeviceSendRequestAndWaitingResp\<close>. \<open>now\<close> is the value \<^verbatim>\<open>millis()\<close> returns in
  this call. \<^verbatim>\<open>memset\<close> zeroes the context, so \<open>recvRespLen\<close> is 0, the receive array is all
  zero and \<open>result\<close> is the enumerator of value 0. The parameter pointer and the 8-bit
  \<^verbatim>\<open>paramDataLen\<close> are the list \<open>params\<close>. \<^verbatim>\<open>memcpy\<close> of more parameter bytes than the
  parameter array holds is undefined behaviour. The result of the push is discarded.
\<close>

definition new_responseCtx ::
  "rcdevice_h \<Rightarrow> timeUs_t \<Rightarrow> u8 \<Rightarrow> u8 list \<Rightarrow> timeUs_t \<Rightarrow> int \<Rightarrow> nat option \<Rightarrow> nat option
     \<Rightarrow> rcdeviceResponseParseContext_t" where
  "new_responseCtx h now commandID params tiemout maxRetry usrInfo parseFunc =
     \<lparr>command = commandID,
      expectedRespLen = runcamDeviceGetRespLen h commandID,
      recvRespLen = 0,
      recvBuf = replicate (RCDEVICE_PROTOCOL_MAX_PACKET_SIZE h) 0,
      timeout = tiemout,
      timeoutTimestamp = now + tiemout,
      parserFunc = parseFunc,
      paramData = params,
      protocolVer = RCDEVICE_PROTOCOL_VERSION_1_0,
      maxRetryTimes = maxRetry,
      userInfo = usrInfo,
      result = RCDEVICE_RESP_SUCCESS\<rparr>"

definition runcamDeviceSendRequestAndWaitingResp ::
  "rcdevice_h \<Rightarrow> world \<Rightarrow> timeUs_t \<Rightarrow> u8 \<Rightarrow> u8 list \<Rightarrow> timeUs_t \<Rightarrow> int \<Rightarrow> nat option \<Rightarrow> nat option
     \<Rightarrow> undefined_behaviour + world" where
  "runcamDeviceSendRequestAndWaitingResp h w now commandID params tiemout maxRetry usrInfo parseFunc =
     (let w1 = runcamDeviceFlushRxBuffer w in
      if length params > RCDEVICE_PROTOCOL_MAX_DATA_SIZE h then Inl ParamDataOutOfBounds
      else
        (let responseCtx = new_responseCtx h now commandID params tiemout maxRetry usrInfo parseFunc;
             (pushed, queue) = rcdeviceRespCtxQueuePushRespCtx h (watingResponseQueue w1) responseCtx;
             w2 = w1\<lparr>watingResponseQueue := queue\<rparr>
         in Inr (runcamDeviceSendPacket h w2 commandID params)))"

subsection \<open>The legacy checksum\<close>

text \<open>The inner loop of \<^verbatim>\<open>calcCRCFromData\<close>: \<open>i\<close> shift steps on the 8-bit value.\<close>

fun crc_shift :: "nat \<Rightarrow> u8 \<Rightarrow> u8" where
  "crc_shift 0 crc = crc"
| "crc_shift (Suc i) crc =
     crc_shift i (if crc AND 0x80 \<noteq> 0 then push_bit 1 crc XOR 0x31 else push_bit 1 crc)"

fun calcCRC_loop :: "u8 list \<Rightarrow> u8 \<Rightarrow> u8" where
  "calcCRC_loop [] crc = crc"
| "calcCRC_loop (b # bs) crc = calcCRC_loop bs (crc_shift 8 (crc XOR b))"

definition calcCRCFromData :: "u8 list \<Rightarrow> nat \<Rightarrow> u8" where
  "calcCRCFromData ptr len = calcCRC_loop (take len ptr) 0"

subsection \<open>The timeout and retry supervisor\<close>

text \<open>A store through the context pointer \<^verbatim>\<open>respCtx\<close>, which points at slot \<open>i\<close> of the ring.\<close>

definition set_slot :: "world \<Rightarrow> nat \<Rightarrow> rcdeviceResponseParseContext_t \<Rightarrow> world" where
  "set_slot w i c =
     w\<lparr>watingResponseQueue :=
         (watingResponseQueue w)\<lparr>buffer := (buffer (watingResponseQueue w))[i := c]\<rparr>\<rparr>"

text \<open>\<^verbatim>\<open>if (respCtx->parserFunc != NULL) respCtx->parserFunc(respCtx);\<close>\<close>

definition call_parserFunc :: "world \<Rightarrow> rcdeviceResponseParseContext_t \<Rightarrow> world" where
  "call_parserFunc w c =
     (case parserFunc c of None \<Rightarrow> w | Some f \<Rightarrow> w\<lparr>trace := trace w @ [Called f c]\<rparr>)"

text \<open>The loop condition of \<^verbatim>\<open>getWaitingResponse\<close> on a context that is not \<^verbatim>\<open>NULL\<close>.\<close>

definition timed_out :: "timeUs_t \<Rightarrow> rcdeviceResponseParseContext_t \<Rightarrow> bool" where
  "timed_out currentTimeUs respCtx =
     (timeoutTimestamp respCtx \<noteq> 0 \<and> currentTimeUs > timeoutTimestamp respCtx)"

text \<open>The branch \<^verbatim>\<open>maxRetryTimes > 0\<close>: send the packet again, move the deadline, count down.\<close>

definition retry_slot :: "rcdevice_h \<Rightarrow> timeUs_t \<Rightarrow> nat \<Rightarrow> world \<Rightarrow> world" where
  "retry_slot h currentTimeUs i w =
     (let respCtx = buffer (watingResponseQueue w) ! i;
          w1 = runcamDeviceSendPacket h w (command respCtx) (paramData respCtx)
      in set_slot w1 i
           (respCtx\<lparr>timeoutTimestamp := currentTimeUs + timeout respCtx,
                    maxRetryTimes := maxRetryTimes respCtx - 1\<rparr>))"

text \<open>The other branch: mark the context timed out, call its callback, shift the ring.\<close>

definition timeout_slot :: "rcdevice_h \<Rightarrow> nat \<Rightarrow> world \<Rightarrow> world" where
  "timeout_slot h i w =
     (let respCtx = (buffer (watingResponseQueue w) ! i)\<lparr>result := RCDEVICE_RESP_TIMEOUT\<rparr>;
          w1 = call_parserFunc (set_slot w i respCtx) respCtx
      in w1\<lparr>watingResponseQueue := snd (rcdeviceRespCtxQueueShift h (watingResponseQueue w1))\<rparr>)"

text \<open>
  \<^verbatim>\<open>getWaitingResponse\<close>. At the head of the C loop \<^verbatim>\<open>respCtx\<close> is always the result of
  \<^verbatim>\<open>rcdeviceRespCtxQueuePeekFront\<close> on the ring as it is then (set before the loop and after
  each shift), so each round of the recursion starts with the peek. The \<^verbatim>\<open>if\<close> inside the
  loop body repeats the loop condition. The result is the returned pointer (a slot index, or
  \<open>None\<close> for \<^verbatim>\<open>NULL\<close>) and the state afterwards.
\<close>

function getWaitingResponse :: "rcdevice_h \<Rightarrow> timeUs_t \<Rightarrow> world \<Rightarrow> nat option \<times> world" where
  "getWaitingResponse h currentTimeUs w =
     (case rcdeviceRespCtxQueuePeekFront h (watingResponseQueue w) of
        None \<Rightarrow> (None, w)
      | Some i \<Rightarrow>
          if timed_out currentTimeUs (buffer (watingResponseQueue w) ! i) then
            (if maxRetryTimes (buffer (watingResponseQueue w) ! i) > 0
             then (None, retry_slot h currentTimeUs i w)
             else getWaitingResponse h currentTimeUs (timeout_slot h i w))
          else (Some i, w))"
  by pat_completeness auto
termination
proof (relation "measure (\<lambda>(h, t, w). itemCount (watingResponseQueue w))", goal_cases)
  case 1
  show ?case by simp
next
  case (2 h currentTimeUs w i)
  then show ?case
    by (auto simp: rcdeviceRespCtxQueuePeekFront_def rcdeviceRespCtxQueueShift_def timeout_slot_def
        call_parserFunc_def set_slot_def Let_def split: if_splits option.splits)
qed

declare getWaitingResponse.simps [simp del]

subsection \<open>The receive loop\<close>

text \<open>
  The check of a complete response (the block under \<^verbatim>\<open>// verify the crc value\<close>). The
  legacy branch loads elements 3 and 4 of the receive array and stores element 3.
\<close>

definition verify_crc ::
  "rcdevice_h \<Rightarrow> rcdeviceResponseParseContext_t
     \<Rightarrow> undefined_behaviour + rcdeviceResponseParseContext_t" where
  "verify_crc h respCtx =
     (if protocolVer respCtx = RCDEVICE_PROTOCOL_RCSPLIT_VERSION then
        (if length (recvBuf respCtx) < 5 then Inl RecvBufOutOfBounds
         else
           (let crcFromPacket = recvBuf respCtx ! 3;
                buf = (recvBuf respCtx)[3 := recvBuf respCtx ! 4];
                crc = calcCRCFromData buf 4
            in Inr (respCtx\<lparr>recvBuf := buf,
                            result := (if crc = crcFromPacket then RCDEVICE_RESP_SUCCESS
                                       else RCDEVICE_RESP_INCORRECT_CRC)\<rparr>)))
      else if protocolVer respCtx = RCDEVICE_PROTOCOL_VERSION_1_0 then
        (let crc = foldl (crc8_dvb_s2 h) 0 (take (unat (recvRespLen respCtx)) (recvBuf respCtx))
         in Inr (respCtx\<lparr>result := (if crc = 0 then RCDEVICE_RESP_SUCCESS
                                     else RCDEVICE_RESP_INCORRECT_CRC)\<rparr>))
      else Inr respCtx)"

text \<open>
  The body of the loop of \<^verbatim>\<open>rcdeviceReceive\<close> for the context in slot \<open>i\<close> and the byte \<open>c\<close>
  just read from the port: store the byte, count it, and on the expected length check the
  response, call the callback and shift the ring.
\<close>

definition receive_byte :: "rcdevice_h \<Rightarrow> nat \<Rightarrow> u8 \<Rightarrow> world \<Rightarrow> undefined_behaviour + world" where
  "receive_byte h i c w =
     (let respCtx = buffer (watingResponseQueue w) ! i in
      if unat (recvRespLen respCtx) \<ge> length (recvBuf respCtx) then Inl RecvBufOutOfBounds
      else
        (let respCtx1 = respCtx\<lparr>recvBuf := (recvBuf respCtx)[unat (recvRespLen respCtx) := c],
                                recvRespLen := recvRespLen respCtx + 1\<rparr>
         in if recvRespLen respCtx1 = expectedRespLen respCtx1 then
              (case verify_crc h respCtx1 of
                 Inl ub \<Rightarrow> Inl ub
               | Inr respCtx2 \<Rightarrow>
                   (let w1 = call_parserFunc (set_slot w i respCtx2) respCtx2
                    in Inr (w1\<lparr>watingResponseQueue :=
                                 snd (rcdeviceRespCtxQueueShift h (watingResponseQueue w1))\<rparr>)))
            else Inr (set_slot w i respCtx1)))"

lemma getWaitingResponse_rxWaiting:
  "rxWaiting (snd (getWaitingResponse h t w)) = rxWaiting w"
proof (induction h t w rule: getWaitingResponse.induct)
  case (1 h t w)
  show ?case
    using "1.IH"
    by (subst getWaitingResponse.simps)
       (auto simp: retry_slot_def timeout_slot_def set_slot_def call_parserFunc_def
          runcamDeviceSendPacket_def Let_def split: option.splits)
qed

lemma receive_byte_rxWaiting:
  "receive_byte h i c w = Inr w' \<Longrightarrow> rxWaiting w' = rxWaiting w"
  by (auto simp: receive_byte_def set_slot_def call_parserFunc_def Let_def
      split: if_splits sum.splits option.splits)

text \<open>
  \<^verbatim>\<open>rcdeviceReceive\<close>. The loop condition reads the clock each time it is evaluated:
  \<open>millis k\<close> is the value of \<^verbatim>\<open>millis()\<close> at the \<open>k\<close>-th evaluation within the call. The
  loop goes on while the supervisor returns a context and a byte is waiting.
\<close>

function rcdeviceReceive_loop ::
  "rcdevice_h \<Rightarrow> (nat \<Rightarrow> timeUs_t) \<Rightarrow> nat \<Rightarrow> world \<Rightarrow> undefined_behaviour + world" where
  "rcdeviceReceive_loop h millis k w =
     (case getWaitingResponse h (millis k) w of
        (None, w1) \<Rightarrow> Inr w1
      | (Some i, w1) \<Rightarrow>
          (case rxWaiting w1 of
             [] \<Rightarrow> Inr w1
           | c # rest \<Rightarrow>
               (case receive_byte h i c (w1\<lparr>rxWaiting := rest\<rparr>) of
                  Inl ub \<Rightarrow> Inl ub
                | Inr w2 \<Rightarrow> rcdeviceReceive_loop h millis (Suc k) w2)))"
  by pat_completeness auto
termination
proof (relation "measure (\<lambda>(h, millis, k, w). length (rxWaiting w))", goal_cases)
  case 1
  show ?case by simp
next
  case (2 h millis k w x1 w1 i c rest w2)
  have "rxWaiting w1 = rxWaiting w"
    using 2(1) getWaitingResponse_rxWaiting [of h "millis k" w] by (metis snd_conv)
  moreover have "rxWaiting w2 = rest"
    using receive_byte_rxWaiting [OF 2(4)] by simp
  ultimately have "rxWaiting w = c # rxWaiting w2"
    using 2(3) by simp
  then have "length (rxWaiting w) = Suc (length (rxWaiting w2))"
    by (metis length_Cons)
  then show ?case by simp
qed

declare rcdeviceReceive_loop.simps [simp del]

definition rcdeviceReceive :: "rcdevice_h \<Rightarrow> (nat \<Rightarrow> timeUs_t) \<Rightarrow> world \<Rightarrow> undefined_behaviour + world" where
  "rcdeviceReceive h millis w = rcdeviceReceive_loop h millis 0 w"

subsection \<open>Properties of states\<close>

text \<open>
  The bounds of the ring's index fields: the count is at most the capacity and both
  positions are indices of the array.
\<close>

definition queue_bounds :: "rcdevice_h \<Rightarrow> rcdeviceWaitingResponseQueue \<Rightarrow> bool" where
  "queue_bounds h q \<longleftrightarrow>
     itemCount q \<le> MAX_WAITING_RESPONSES h \<and> headPos q < MAX_WAITING_RESPONSES h \<and>
     tailPos q < MAX_WAITING_RESPONSES h"

text \<open>
  A well-formed ring: the bounds, an array of the declared size, and the tail position
  being the head position advanced by the count. The ring starts in such a state (a
  zero-initialised global has both positions and the count equal to 0).
\<close>

definition queue_wf :: "rcdevice_h \<Rightarrow> rcdeviceWaitingResponseQueue \<Rightarrow> bool" where
  "queue_wf h q \<longleftrightarrow>
     itemCount q \<le> MAX_WAITING_RESPONSES h \<and> headPos q < MAX_WAITING_RESPONSES h \<and>
     tailPos q < MAX_WAITING_RESPONSES h \<and> length (buffer q) = MAX_WAITING_RESPONSES h \<and>
     tailPos q = (headPos q + itemCount q) mod MAX_WAITING_RESPONSES h"

text \<open>The contexts the ring holds, oldest first: the slots from the head position on.\<close>

definition waiting :: "rcdevice_h \<Rightarrow> rcdeviceWaitingResponseQueue \<Rightarrow> rcdeviceResponseParseContext_t list" where
  "waiting h q =
     map (\<lambda>k. buffer q ! ((headPos q + k) mod MAX_WAITING_RESPONSES h)) [0..<itemCount q]"

text \<open>Pushing a list of contexts in order, and shifting \<open>n\<close> times; the return values in order.\<close>

fun push_all ::
  "rcdevice_h \<Rightarrow> rcdeviceWaitingResponseQueue \<Rightarrow> rcdeviceResponseParseContext_t list
     \<Rightarrow> bool list \<times> rcdeviceWaitingResponseQueue" where
  "push_all h q [] = ([], q)"
| "push_all h q (c # cs) =
     (let (ok, q1) = rcdeviceRespCtxQueuePushRespCtx h q c;
          (oks, q2) = push_all h q1 cs
      in (ok # oks, q2))"

fun shift_all ::
  "rcdevice_h \<Rightarrow> rcdeviceWaitingResponseQueue \<Rightarrow> nat
     \<Rightarrow> rcdeviceResponseParseContext_t option list \<times> rcdeviceWaitingResponseQueue" where
  "shift_all h q 0 = ([], q)"
| "shift_all h q (Suc n) =
     (let (p, q1) = rcdeviceRespCtxQueueShift h q;
          (ps, q2) = shift_all h q1 n
      in (map_option (\<lambda>i. buffer q1 ! i) p # ps, q2))"

text \<open>The trace left by the call of a context's callback, if it has one.\<close>

definition callback_events :: "rcdeviceResponseParseContext_t \<Rightarrow> event list" where
  "callback_events c = (case parserFunc c of None \<Rightarrow> [] | Some f \<Rightarrow> [Called f c])"

text \<open>
  Successive calls of \<^verbatim>\<open>rcdeviceReceive\<close>, one for each clock value of the list (the clock
  stands still within a call).
\<close>

fun polls :: "rcdevice_h \<Rightarrow> timeUs_t list \<Rightarrow> world \<Rightarrow> undefined_behaviour + world" where
  "polls h [] w = Inr w"
| "polls h (t # ts) w =
     (case rcdeviceReceive h (\<lambda>k. t) w of Inl ub \<Rightarrow> Inl ub | Inr w' \<Rightarrow> polls h ts w')"

text \<open>
  Every poll comes after the deadline then in force: the first after the deadline \<open>d\<close>, each
  later one after the deadline the retry before it has set, and no deadline is 0.
\<close>

fun deadlines_missed :: "timeUs_t \<Rightarrow> timeUs_t \<Rightarrow> timeUs_t list \<Rightarrow> bool" where
  "deadlines_missed d tmo [] = True"
| "deadlines_missed d tmo (t # ts) = (d \<noteq> 0 \<and> t > d \<and> deadlines_missed (t + tmo) tmo ts)"

text \<open>
  The states the engine can get into. It starts with a well-formed empty ring. The
  callers make requests through \<^verbatim>\<open>runcamDeviceSendRequestAndWaitingResp\<close> (with any
  arguments) or send a bare packet (\<^verbatim>\<open>runcamDeviceSimulateCameraButton\<close>); bytes arrive on
  the port; and \<^verbatim>\<open>rcdeviceReceive\<close> runs, which is a sequence of supervisor calls and loop
  bodies.
\<close>

inductive reachable :: "rcdevice_h \<Rightarrow> world \<Rightarrow> bool" for h :: rcdevice_h where
  start:
    "queue_wf h (watingResponseQueue w) \<Longrightarrow> itemCount (watingResponseQueue w) = 0 \<Longrightarrow>
       reachable h w"
| request:
    "reachable h w \<Longrightarrow>
       runcamDeviceSendRequestAndWaitingResp h w now cmd params tmo retry ui pf = Inr w' \<Longrightarrow>
       reachable h w'"
| button:
    "reachable h w \<Longrightarrow> reachable h (runcamDeviceSendPacket h w cmd params)"
| arrival:
    "reachable h w \<Longrightarrow> reachable h (w\<lparr>rxWaiting := rxWaiting w @ bs\<rparr>)"
| supervise:
    "reachable h w \<Longrightarrow> getWaitingResponse h now w = (r, w') \<Longrightarrow> reachable h w'"
| byte:
    "reachable h w \<Longrightarrow> rxWaiting w = b # rest \<Longrightarrow>
       rcdeviceRespCtxQueuePeekFront h (watingResponseQueue w) = Some i \<Longrightarrow>
       receive_byte h i b (w\<lparr>rxWaiting := rest\<rparr>) = Inr w' \<Longrightarrow> reachable h w'"

text \<open>
  A waiting context within its bounds: fewer bytes received than expected, no more bytes
  expected than the receive array holds, and a context of the legacy version expects at
  least the five bytes its check reads.
\<close>

definition ctx_bounded :: "rcdevice_h \<Rightarrow> rcdeviceResponseParseContext_t \<Rightarrow> bool" where
  "ctx_bounded h c \<longleftrightarrow>
     unat (recvRespLen c) < unat (expectedRespLen c) \<and>
     unat (expectedRespLen c) \<le> length (recvBuf c) \<and>
     length (recvBuf c) = RCDEVICE_PROTOCOL_MAX_PACKET_SIZE h \<and>
     (protocolVer c = RCDEVICE_PROTOCOL_RCSPLIT_VERSION \<longrightarrow> 5 \<le> unat (expectedRespLen c))"

text \<open>The ring is well formed and every waiting context is within its bounds.\<close>

definition engine_inv :: "rcdevice_h \<Rightarrow> world \<Rightarrow> bool" where
  "engine_inv h w \<longleftrightarrow>
     queue_wf h (watingResponseQueue w) \<and>
     (\<forall>c\<in>set (waiting h (watingResponseQueue w)). ctx_bounded h c)"



subsection \<open>A configuration and states for the examples\<close>

text \<open>
  One choice of the declarations the engine is parameterised by: a ring of 20 contexts,
  receive arrays of 64 bytes, parameter arrays of 62 bytes, and a bitwise CRC-8 step with
  the polynomial \<open>0xD5\<close> for \<open>crc8_dvb_s2\<close>. The theorems below hold for every choice;
  the examples are evaluated with this one.
\<close>

fun example_crc_shift :: "nat \<Rightarrow> u8 \<Rightarrow> u8" where
  "example_crc_shift 0 crc = crc"
| "example_crc_shift (Suc i) crc =
     example_crc_shift i (if crc AND 0x80 \<noteq> 0 then push_bit 1 crc XOR 0xD5 else push_bit 1 crc)"

definition example_h :: rcdevice_h where
  "example_h =
     \<lparr>MAX_WAITING_RESPONSES = 20,
      RCDEVICE_PROTOCOL_MAX_PACKET_SIZE = 64,
      RCDEVICE_PROTOCOL_MAX_DATA_SIZE = 62,
      RCDEVICE_PROTOCOL_HEADER = 0xCC,
      RCDEVICE_PROTOCOL_COMMAND_GET_DEVICE_INFO = 0x00,
      RCDEVICE_PROTOCOL_COMMAND_5KEY_SIMULATION_PRESS = 0x02,
      RCDEVICE_PROTOCOL_COMMAND_5KEY_SIMULATION_RELEASE = 0x03,
      RCDEVICE_PROTOCOL_COMMAND_5KEY_CONNECTION = 0x04,
      crc8_dvb_s2 = (\<lambda>crc a. example_crc_shift 8 (crc XOR a))\<rparr>"

text \<open>A context with every field zero, and the ring of a program that has just started.\<close>

definition zero_ctx :: "rcdevice_h \<Rightarrow> rcdeviceResponseParseContext_t" where
  "zero_ctx h =
     \<lparr>command = 0, expectedRespLen = 0, recvRespLen = 0,
      recvBuf = replicate (RCDEVICE_PROTOCOL_MAX_PACKET_SIZE h) 0,
      timeout = 0, timeoutTimestamp = 0, parserFunc = None, paramData = [],
      protocolVer = RCDEVICE_PROTOCOL_RCSPLIT_VERSION, maxRetryTimes = 0, userInfo = None,
      result = RCDEVICE_RESP_SUCCESS\<rparr>"

definition empty_queue :: "rcdevice_h \<Rightarrow> rcdeviceWaitingResponseQueue" where
  "empty_queue h =
     \<lparr>headPos = 0, tailPos = 0, itemCount = 0,
      buffer = replicate (MAX_WAITING_RESPONSES h) (zero_ctx h)\<rparr>"

text \<open>
  Two requests as the callers in the source file make them: opening the 5-key connection
  (one parameter byte, 200 ms, one retry) and asking for the device information (no
  parameter, 5000 ms, no retry), both at clock value 1000.
\<close>

definition example_ctx_connection :: rcdeviceResponseParseContext_t where
  "example_ctx_connection = new_responseCtx example_h 1000 0x04 [0x01] 200 1 None (Some 1)"

definition example_ctx_info :: rcdeviceResponseParseContext_t where
  "example_ctx_info = new_responseCtx example_h 1000 0x00 [] 5000 0 None (Some 2)"

text \<open>A state of the engine with the given contexts waiting and the given bytes received.\<close>

definition example_world :: "rcdeviceResponseParseContext_t list \<Rightarrow> u8 list \<Rightarrow> world" where
  "example_world cs rx =
     \<lparr>watingResponseQueue = snd (push_all example_h (empty_queue example_h) cs),
      serialPort = True, rxWaiting = rx, trace = []\<rparr>"

text \<open>A state with the ring full and no serial port set on the device.\<close>

definition example_world_no_port :: world where
  "example_world_no_port = (example_world (replicate 20 example_ctx_info) [])\<lparr>serialPort := False\<rparr>"

text \<open>
  The same two requests made 200 ms and 5000 ms before the 32-bit clock wraps around: the
  deadline \<^verbatim>\<open>millis() + tiemout\<close> is 0.
\<close>

definition example_ctx_wrapped :: rcdeviceResponseParseContext_t where
  "example_ctx_wrapped = new_responseCtx example_h 4294967096 0x04 [0x01] 200 1 None (Some 1)"

definition example_ctx_wrapped_info :: rcdeviceResponseParseContext_t where
  "example_ctx_wrapped_info = new_responseCtx example_h 4294962296 0x00 [] 5000 0 None (Some 2)"

text \<open>The first request after its retry has been used up.\<close>

definition example_ctx_spent :: rcdeviceResponseParseContext_t where
  "example_ctx_spent = example_ctx_connection\<lparr>maxRetryTimes := 0\<rparr>"

text \<open>
  A request with a command that is not in the response-length table (the camera control
  command, which the source file sends without a context): its expected length is 0.
\<close>

definition example_ctx_no_response :: rcdeviceResponseParseContext_t where
  "example_ctx_no_response = new_responseCtx example_h 1000 0x01 [0x01] 200 1 None (Some 3)"



section \<open>The ring is a bounded FIFO queue\<close>

lemma example_h_fields [simp]:
  "MAX_WAITING_RESPONSES example_h = 20"
  "RCDEVICE_PROTOCOL_MAX_PACKET_SIZE example_h = 64"
  "RCDEVICE_PROTOCOL_MAX_DATA_SIZE example_h = 62"
  "RCDEVICE_PROTOCOL_HEADER example_h = 0xCC"
  "RCDEVICE_PROTOCOL_COMMAND_GET_DEVICE_INFO example_h = 0x00"
  "RCDEVICE_PROTOCOL_COMMAND_5KEY_SIMULATION_PRESS example_h = 0x02"
  "RCDEVICE_PROTOCOL_COMMAND_5KEY_SIMULATION_RELEASE example_h = 0x03"
  "RCDEVICE_PROTOCOL_COMMAND_5KEY_CONNECTION example_h = 0x04"
  "crc8_dvb_s2 example_h = (\<lambda>crc a. example_crc_shift 8 (crc XOR a))"
  by (simp_all add: example_h_def)


lemma example_crc_shift_numeral:
  "example_crc_shift (numeral n) crc =
     example_crc_shift (pred_numeral n)
       (if crc AND 0x80 \<noteq> 0 then push_bit 1 crc XOR 0xD5 else push_bit 1 crc)"
  by (simp add: numeral_eq_Suc)

lemma packet_bytes:
  "packet h cmd params
     = RCDEVICE_PROTOCOL_HEADER h # cmd # params
         @ [foldl (crc8_dvb_s2 h) 0 (RCDEVICE_PROTOCOL_HEADER h # cmd # params)]"
  by (simp add: packet_def crc8_dvb_s2_sbuf_append_def)

lemma example_packet_connection:
  "packet example_h 0x04 [0x01] = [0xCC, 0x04, 0x01, 0xC0]"
  by (simp add: packet_bytes example_crc_shift_numeral)

lemma mod_slot_neq:
  fixes n :: nat
  assumes "a < b" "b < n"
  shows "(m + a) mod n \<noteq> (m + b) mod n"
proof
  assume "(m + a) mod n = (m + b) mod n"
  then have "n dvd (m + b) - (m + a)"
    using assms by (metis mod_eq_dvd_iff_nat add_le_cancel_left less_imp_le)
  then have "n dvd b - a" by simp
  moreover have "0 < b - a" "b - a < n" using assms by auto
  ultimately show False by (meson dvd_imp_le not_less)
qed

lemma wrap_next:
  fixes n :: nat
  assumes "a < n"
  shows "(if a + 1 \<ge> n then 0 else a + 1) = (a + 1) mod n"
proof (cases "a + 1 \<ge> n")
  case True
  with assms have "a + 1 = n" by simp
  then show ?thesis by simp
next
  case False
  then show ?thesis by simp
qed

lemma push_ok:
  assumes "queue_wf h q" "itemCount q < MAX_WAITING_RESPONSES h"
  shows "\<exists>q'. rcdeviceRespCtxQueuePushRespCtx h q c = (True, q') \<and> queue_wf h q' \<and>
          waiting h q' = waiting h q @ [c] \<and> headPos q' = headPos q \<and> itemCount q' = Suc (itemCount q)"
proof -
  let ?n = "MAX_WAITING_RESPONSES h"
  let ?q' = "q\<lparr>buffer := (buffer q)[tailPos q := c], itemCount := itemCount q + 1,
      tailPos := (if tailPos q + 1 \<ge> ?n then 0 else tailPos q + 1)\<rparr>"
  from assms have t: "tailPos q < ?n" and hd: "headPos q < ?n" and len: "length (buffer q) = ?n"
    and rel: "tailPos q = (headPos q + itemCount q) mod ?n"
    by (auto simp: queue_wf_def)
  have push: "rcdeviceRespCtxQueuePushRespCtx h q c = (True, ?q')"
    using assms t by (simp add: rcdeviceRespCtxQueuePushRespCtx_def Let_def)
  have tail': "tailPos ?q' = (headPos q + (itemCount q + 1)) mod ?n"
  proof -
    have "(headPos q + (itemCount q + 1)) mod ?n = (tailPos q + 1) mod ?n"
      using rel by (metis add.assoc mod_add_left_eq)
    also have "\<dots> = (if tailPos q + 1 \<ge> ?n then 0 else tailPos q + 1)"
      using wrap_next [OF t] by simp
    finally show ?thesis by simp
  qed
  have wf: "queue_wf h ?q'"
    using assms t hd len tail' by (auto simp: queue_wf_def)
  have old: "buffer ?q' ! ((headPos q + k) mod ?n) = buffer q ! ((headPos q + k) mod ?n)"
    if "k < itemCount q" for k
    using mod_slot_neq [OF that assms(2), of "headPos q"] rel by simp
  have new: "buffer ?q' ! ((headPos q + itemCount q) mod ?n) = c"
    using rel t len by simp
  have "waiting h ?q' = waiting h q @ [c]"
    using old new by (simp add: waiting_def)
  with push wf show ?thesis by simp
qed

lemma push_full:
  "itemCount q = MAX_WAITING_RESPONSES h \<Longrightarrow> rcdeviceRespCtxQueuePushRespCtx h q c = (False, q)"
  by (simp add: rcdeviceRespCtxQueuePushRespCtx_def)

lemma waiting_nonempty:
  "queue_wf h q \<Longrightarrow> 0 < itemCount q \<Longrightarrow> waiting h q = buffer q ! headPos q # tl (waiting h q)"
  by (cases "itemCount q") (auto simp: waiting_def queue_wf_def upt_conv_Cons simp del: upt_Suc)

lemma shift_ok:
  assumes "queue_wf h q" "0 < itemCount q"
  shows "\<exists>q'. rcdeviceRespCtxQueueShift h q = (Some (headPos q), q') \<and> queue_wf h q' \<and>
          waiting h q' = tl (waiting h q) \<and> buffer q' = buffer q \<and> itemCount q' = itemCount q - 1"
proof -
  let ?n = "MAX_WAITING_RESPONSES h"
  let ?h' = "(if headPos q + 1 \<ge> ?n then 0 else headPos q + 1)"
  let ?q' = "q\<lparr>itemCount := itemCount q - 1, headPos := ?h'\<rparr>"
  from assms have t: "tailPos q < ?n" and hd: "headPos q < ?n" and len: "length (buffer q) = ?n"
    and rel: "tailPos q = (headPos q + itemCount q) mod ?n" and cnt: "itemCount q \<le> ?n"
    by (auto simp: queue_wf_def)
  have sh: "rcdeviceRespCtxQueueShift h q = (Some (headPos q), ?q')"
    using assms hd by (simp add: rcdeviceRespCtxQueueShift_def Let_def)
  have h': "?h' = (headPos q + 1) mod ?n"
    using wrap_next [OF hd] by simp
  have step: "(?h' + k) mod ?n = (headPos q + Suc k) mod ?n" for k
    unfolding h' by (simp add: mod_add_left_eq)
  have rel': "tailPos q = (?h' + (itemCount q - 1)) mod ?n"
    unfolding step using assms(2) rel by simp
  have wf: "queue_wf h ?q'"
    using cnt t len rel' hd by (auto simp: queue_wf_def)
  have "waiting h ?q' = map (\<lambda>k. buffer q ! ((headPos q + Suc k) mod ?n)) [0..<itemCount q - 1]"
    unfolding waiting_def using step by simp
  also have "\<dots> = map (\<lambda>k. buffer q ! ((headPos q + k) mod ?n)) (map Suc [0..<itemCount q - 1])"
    by (simp add: comp_def)
  also have "map Suc [0..<itemCount q - 1] = tl [0..<itemCount q]"
    using assms(2) by (cases "itemCount q") (simp_all add: map_Suc_upt upt_conv_Cons del: upt_Suc)
  also have "map (\<lambda>k. buffer q ! ((headPos q + k) mod ?n)) (tl [0..<itemCount q]) = tl (waiting h q)"
    unfolding waiting_def by (rule map_tl)
  finally show ?thesis using sh wf by simp
qed

lemma push_bounds:
  "queue_bounds h q \<Longrightarrow> queue_bounds h (snd (rcdeviceRespCtxQueuePushRespCtx h q c))"
  by (auto simp: queue_bounds_def rcdeviceRespCtxQueuePushRespCtx_def Let_def)

lemma shift_bounds:
  "queue_bounds h q \<Longrightarrow> queue_bounds h (snd (rcdeviceRespCtxQueueShift h q))"
  by (auto simp: queue_bounds_def rcdeviceRespCtxQueueShift_def Let_def)

lemma push_all_ok:
  "queue_wf h q \<Longrightarrow> itemCount q + length cs \<le> MAX_WAITING_RESPONSES h \<Longrightarrow>
     fst (push_all h q cs) = replicate (length cs) True \<and>
     queue_wf h (snd (push_all h q cs)) \<and>
     waiting h (snd (push_all h q cs)) = waiting h q @ cs \<and>
     itemCount (snd (push_all h q cs)) = itemCount q + length cs"
proof (induction cs arbitrary: q)
  case Nil
  then show ?case by simp
next
  case (Cons c cs)
  from Cons.prems have "itemCount q < MAX_WAITING_RESPONSES h" by simp
  from push_ok [OF Cons.prems(1) this, of c] obtain q1 where
    q1: "rcdeviceRespCtxQueuePushRespCtx h q c = (True, q1)" "queue_wf h q1"
      "waiting h q1 = waiting h q @ [c]" "itemCount q1 = Suc (itemCount q)"
    by blast
  from Cons.prems q1 have "itemCount q1 + length cs \<le> MAX_WAITING_RESPONSES h" by simp
  note ih = Cons.IH [OF q1(2) this]
  have pa: "push_all h q (c # cs) = (True # fst (push_all h q1 cs), snd (push_all h q1 cs))"
    using q1(1) by (simp add: split_beta)
  show ?case
    unfolding pa using ih q1(3,4) by simp
qed

lemma waiting_length: "length (waiting h q) = itemCount q"
  by (simp add: waiting_def)

lemma shift_all_ok:
  "queue_wf h q \<Longrightarrow> n \<le> itemCount q \<Longrightarrow>
     fst (shift_all h q n) = map Some (take n (waiting h q)) \<and>
     queue_wf h (snd (shift_all h q n)) \<and>
     waiting h (snd (shift_all h q n)) = drop n (waiting h q)"
proof (induction n arbitrary: q)
  case 0
  then show ?case by simp
next
  case (Suc n)
  from Suc.prems have pos: "0 < itemCount q" by simp
  from shift_ok [OF Suc.prems(1) pos] obtain q1 where
    q1: "rcdeviceRespCtxQueueShift h q = (Some (headPos q), q1)" "queue_wf h q1"
      "waiting h q1 = tl (waiting h q)" "buffer q1 = buffer q" "itemCount q1 = itemCount q - 1"
    by blast
  from Suc.prems q1 have "n \<le> itemCount q1" by simp
  note ih = Suc.IH [OF q1(2) this]
  obtain x xs where ws: "waiting h q = x # xs" "x = buffer q ! headPos q"
    using waiting_nonempty [OF Suc.prems(1) pos] by blast
  have sh: "shift_all h q (Suc n) =
      (Some (buffer q ! headPos q) # fst (shift_all h q1 n), snd (shift_all h q1 n))"
    using q1(1,4) by (simp add: split_beta)
  show ?case
    unfolding sh using ih q1(3) ws by simp
qed

lemma push_wf:
  assumes "queue_wf h q"
  shows "queue_wf h (snd (rcdeviceRespCtxQueuePushRespCtx h q c))"
proof (cases "itemCount q < MAX_WAITING_RESPONSES h")
  case True
  from push_ok [OF assms True, of c] show ?thesis by auto
next
  case False
  with assms have "itemCount q = MAX_WAITING_RESPONSES h" by (simp add: queue_wf_def)
  from push_full [OF this, of c] assms show ?thesis by simp
qed

lemma shift_wf:
  assumes "queue_wf h q"
  shows "queue_wf h (snd (rcdeviceRespCtxQueueShift h q))"
proof (cases "0 < itemCount q")
  case True
  from shift_ok [OF assms True] show ?thesis by auto
next
  case False
  with assms show ?thesis by (simp add: rcdeviceRespCtxQueueShift_def)
qed

text \<open>
  Claim C6. The bounds of the ring (count at most the capacity, head and tail positions
  valid indices) are kept by every push and every shift, and so is the well-formedness of
  the ring; peeking is a pure read, of the head slot when the count is not 0. On a
  well-formed ring, pushing contexts that fit into the remaining capacity succeeds each
  time, and shifting then returns the contexts that were waiting followed by the pushed
  ones, in the order they were pushed.
\<close>

theorem ring_fifo:
  "(queue_bounds h q \<longrightarrow>
      queue_bounds h (snd (rcdeviceRespCtxQueuePushRespCtx h q c)) \<and>
      queue_bounds h (snd (rcdeviceRespCtxQueueShift h q))) \<and>
   (queue_wf h q \<longrightarrow>
      queue_wf h (snd (rcdeviceRespCtxQueuePushRespCtx h q c)) \<and>
      queue_wf h (snd (rcdeviceRespCtxQueueShift h q)) \<and>
      rcdeviceRespCtxQueuePeekFront h q = (if itemCount q = 0 then None else Some (headPos q))) \<and>
   (queue_wf h q \<and> itemCount q + length cs \<le> MAX_WAITING_RESPONSES h \<longrightarrow>
      fst (push_all h q cs) = replicate (length cs) True \<and>
      fst (shift_all h (snd (push_all h q cs)) (itemCount q + length cs))
        = map Some (waiting h q @ cs))"
proof -
  have "fst (shift_all h (snd (push_all h q cs)) (itemCount q + length cs))
        = map Some (waiting h q @ cs)"
    if wf: "queue_wf h q" and le: "itemCount q + length cs \<le> MAX_WAITING_RESPONSES h"
  proof -
    from push_all_ok [OF wf le] have
      p: "queue_wf h (snd (push_all h q cs))"
        "waiting h (snd (push_all h q cs)) = waiting h q @ cs"
        "itemCount (snd (push_all h q cs)) = itemCount q + length cs"
      by simp_all
    from shift_all_ok [OF p(1), of "itemCount q + length cs"] p(2,3)
    show ?thesis by (simp add: waiting_length)
  qed
  moreover have "fst (push_all h q cs) = replicate (length cs) True"
    if "queue_wf h q" "itemCount q + length cs \<le> MAX_WAITING_RESPONSES h"
    using push_all_ok [OF that] by simp
  moreover have "rcdeviceRespCtxQueuePeekFront h q
      = (if itemCount q = 0 then None else Some (headPos q))" if "queue_wf h q"
    using that by (simp add: rcdeviceRespCtxQueuePeekFront_def queue_wf_def)
  ultimately show ?thesis
    using push_bounds [of h q c] shift_bounds [of h q] push_wf [of h q c] shift_wf [of h q]
    by blast
qed

theorem ring_fifo_witness:
  "queue_bounds example_h (empty_queue example_h) \<and>
   queue_wf example_h (empty_queue example_h) \<and>
   itemCount (empty_queue example_h) + length [example_ctx_connection, example_ctx_info]
     \<le> MAX_WAITING_RESPONSES example_h \<and>
   fst (push_all example_h (empty_queue example_h) [example_ctx_connection, example_ctx_info])
     = [True, True] \<and>
   fst (shift_all example_h
          (snd (push_all example_h (empty_queue example_h)
                  [example_ctx_connection, example_ctx_info])) 2)
     = [Some example_ctx_connection, Some example_ctx_info]"
  using ring_fifo [of example_h "empty_queue example_h" example_ctx_connection
      "[example_ctx_connection, example_ctx_info]"]
  by (simp add: queue_bounds_def queue_wf_def waiting_def empty_queue_def
      rcdeviceRespCtxQueuePushRespCtx_def rcdeviceRespCtxQueueShift_def Let_def numeral_2_eq_2)

section \<open>A full ring rejects a push\<close>

text \<open>
  Claim C7. Pushing onto a ring whose count equals the capacity returns false and leaves
  the ring as it was: array contents, count, head position and tail position.
\<close>

theorem push_on_full_ring_rejected:
  "itemCount q = MAX_WAITING_RESPONSES h \<Longrightarrow>
     rcdeviceRespCtxQueuePushRespCtx h q c = (False, q)"
  by (simp add: rcdeviceRespCtxQueuePushRespCtx_def)

theorem push_on_full_ring_rejected_witness:
  "itemCount ((empty_queue example_h)\<lparr>itemCount := 20\<rparr>) = MAX_WAITING_RESPONSES example_h \<and>
   rcdeviceRespCtxQueuePushRespCtx example_h ((empty_queue example_h)\<lparr>itemCount := 20\<rparr>)
       example_ctx_info
     = (False, (empty_queue example_h)\<lparr>itemCount := 20\<rparr>)"
  using push_on_full_ring_rejected [of "(empty_queue example_h)\<lparr>itemCount := 20\<rparr>" example_h
      example_ctx_info]
  by (simp add: empty_queue_def)

section \<open>The supervisor and the receive loop on a well-formed ring\<close>

lemma trace_call_parserFunc: "trace (call_parserFunc w c) = trace w @ callback_events c"
  by (simp add: call_parserFunc_def callback_events_def split: option.splits)

lemma call_parserFunc_fields [simp]:
  "watingResponseQueue (call_parserFunc w c) = watingResponseQueue w"
  "rxWaiting (call_parserFunc w c) = rxWaiting w"
  "serialPort (call_parserFunc w c) = serialPort w"
  by (simp_all add: call_parserFunc_def split: option.splits)

lemma set_slot_fields [simp]:
  "rxWaiting (set_slot w i c) = rxWaiting w"
  "serialPort (set_slot w i c) = serialPort w"
  "trace (set_slot w i c) = trace w"
  "headPos (watingResponseQueue (set_slot w i c)) = headPos (watingResponseQueue w)"
  "tailPos (watingResponseQueue (set_slot w i c)) = tailPos (watingResponseQueue w)"
  "itemCount (watingResponseQueue (set_slot w i c)) = itemCount (watingResponseQueue w)"
  "buffer (watingResponseQueue (set_slot w i c)) = (buffer (watingResponseQueue w))[i := c]"
  by (simp_all add: set_slot_def)

lemma sendPacket_fields [simp]:
  "watingResponseQueue (runcamDeviceSendPacket h w cmd ps) = watingResponseQueue w"
  "rxWaiting (runcamDeviceSendPacket h w cmd ps) = rxWaiting w"
  "serialPort (runcamDeviceSendPacket h w cmd ps) = serialPort w"
  "trace (runcamDeviceSendPacket h w cmd ps)
     = trace w @ (if serialPort w then [Written (packet h cmd ps)] else [])"
  by (simp_all add: runcamDeviceSendPacket_def)

lemma peek_Some_iff:
  "rcdeviceRespCtxQueuePeekFront h q = Some i \<longleftrightarrow>
     i = headPos q \<and> 0 < itemCount q \<and> headPos q < MAX_WAITING_RESPONSES h"
  by (auto simp: rcdeviceRespCtxQueuePeekFront_def)

lemma peek_wf:
  "queue_wf h q \<Longrightarrow>
     rcdeviceRespCtxQueuePeekFront h q = (if itemCount q = 0 then None else Some (headPos q))"
  by (simp add: rcdeviceRespCtxQueuePeekFront_def queue_wf_def)

lemma waiting_Nil_iff: "waiting h q = [] \<longleftrightarrow> itemCount q = 0"
  by (simp add: waiting_def)

lemma head_slot:
  "queue_wf h q \<Longrightarrow> waiting h q = c # cs \<Longrightarrow> buffer q ! headPos q = c \<and> 0 < itemCount q"
  using waiting_nonempty [of h q] waiting_length [of h q] by (cases "itemCount q") auto

lemma store_head:
  assumes "queue_wf h q" "0 < itemCount q"
  shows "queue_wf h (q\<lparr>buffer := (buffer q)[headPos q := c]\<rparr>) \<and>
         waiting h (q\<lparr>buffer := (buffer q)[headPos q := c]\<rparr>) = c # tl (waiting h q)"
proof -
  let ?n = "MAX_WAITING_RESPONSES h"
  let ?q' = "q\<lparr>buffer := (buffer q)[headPos q := c]\<rparr>"
  from assms have hd: "headPos q < ?n" and len: "length (buffer q) = ?n"
    and cnt: "itemCount q \<le> ?n"
    by (auto simp: queue_wf_def)
  have wf: "queue_wf h ?q'" using assms(1) by (simp add: queue_wf_def)
  have other: "buffer ?q' ! ((headPos q + k) mod ?n) = buffer q ! ((headPos q + k) mod ?n)"
    if "0 < k" "k < itemCount q" for k
  proof -
    have "k < ?n" using that cnt by simp
    from mod_slot_neq [OF that(1) this, of "headPos q"] hd show ?thesis by simp
  qed
  have "waiting h ?q' = buffer ?q' ! headPos ?q' # tl (waiting h ?q')"
    using waiting_nonempty [OF wf] assms(2) by simp
  moreover have "buffer ?q' ! headPos ?q' = c" using hd len by simp
  moreover have "tl (waiting h ?q') = tl (waiting h q)"
  proof -
    have "map (\<lambda>k. buffer ?q' ! ((headPos q + k) mod ?n)) [Suc 0..<itemCount q]
        = map (\<lambda>k. buffer q ! ((headPos q + k) mod ?n)) [Suc 0..<itemCount q]"
      using other by (intro map_cong) auto
    then show ?thesis
      using assms(2) by (simp add: waiting_def map_tl [symmetric] del: upt_Suc)
  qed
  ultimately show ?thesis using wf by simp
qed

lemma timeout_slot_props:
  assumes wf: "queue_wf h (watingResponseQueue w)" and ws: "waiting h (watingResponseQueue w) = c # cs"
  defines "w' \<equiv> timeout_slot h (headPos (watingResponseQueue w)) w"
  shows "queue_wf h (watingResponseQueue w')" "waiting h (watingResponseQueue w') = cs"
    "trace w' = trace w @ callback_events (c\<lparr>result := RCDEVICE_RESP_TIMEOUT\<rparr>)"
    "rxWaiting w' = rxWaiting w" "serialPort w' = serialPort w"
proof -
  let ?q = "watingResponseQueue w"
  let ?c = "c\<lparr>result := RCDEVICE_RESP_TIMEOUT\<rparr>"
  let ?q1 = "?q\<lparr>buffer := (buffer ?q)[headPos ?q := ?c]\<rparr>"
  from head_slot [OF wf ws] have hdc: "buffer ?q ! headPos ?q = c" and pos: "0 < itemCount ?q"
    by simp_all
  from store_head [OF wf pos, of ?c] ws have wf1: "queue_wf h ?q1" and ws1: "waiting h ?q1 = ?c # cs"
    by simp_all
  have pos1: "0 < itemCount ?q1" using pos by simp
  from shift_ok [OF wf1 pos1] ws1 obtain q2 where
    q2: "rcdeviceRespCtxQueueShift h ?q1 = (Some (headPos ?q1), q2)" "queue_wf h q2"
      "waiting h q2 = cs"
    by auto
  have q1: "watingResponseQueue (set_slot w (headPos ?q) ?c) = ?q1"
    by (simp add: set_slot_def)
  have "snd (rcdeviceRespCtxQueueShift h (watingResponseQueue (set_slot w (headPos ?q) ?c))) = q2"
    unfolding q1 using q2(1) by simp
  then have w': "w' = (call_parserFunc (set_slot w (headPos ?q) ?c) ?c)\<lparr>watingResponseQueue := q2\<rparr>"
    unfolding w'_def timeout_slot_def Let_def hdc by simp
  show "queue_wf h (watingResponseQueue w')" "waiting h (watingResponseQueue w') = cs"
    "trace w' = trace w @ callback_events ?c"
    "rxWaiting w' = rxWaiting w" "serialPort w' = serialPort w"
    unfolding w' using q2 by (simp_all add: trace_call_parserFunc)
qed

lemma retry_slot_props:
  fixes now :: timeUs_t
  assumes wf: "queue_wf h (watingResponseQueue w)" and ws: "waiting h (watingResponseQueue w) = c # cs"
  defines "w' \<equiv> retry_slot h now (headPos (watingResponseQueue w)) w"
  shows "queue_wf h (watingResponseQueue w')"
    "waiting h (watingResponseQueue w')
       = c\<lparr>timeoutTimestamp := now + timeout c, maxRetryTimes := maxRetryTimes c - 1\<rparr> # cs"
    "trace w' = trace w @ (if serialPort w then [Written (packet h (command c) (paramData c))] else [])"
    "rxWaiting w' = rxWaiting w" "serialPort w' = serialPort w"
    "itemCount (watingResponseQueue w') = itemCount (watingResponseQueue w)"
    "headPos (watingResponseQueue w') = headPos (watingResponseQueue w)"
    "tailPos (watingResponseQueue w') = tailPos (watingResponseQueue w)"
proof -
  let ?q = "watingResponseQueue w"
  let ?c = "c\<lparr>timeoutTimestamp := now + timeout c, maxRetryTimes := maxRetryTimes c - 1\<rparr>"
  from head_slot [OF wf ws] have hdc: "buffer ?q ! headPos ?q = c" and pos: "0 < itemCount ?q"
    by simp_all
  have w': "w' = set_slot (runcamDeviceSendPacket h w (command c) (paramData c)) (headPos ?q) ?c"
    unfolding w'_def retry_slot_def Let_def hdc by simp
  have q': "watingResponseQueue w' = ?q\<lparr>buffer := (buffer ?q)[headPos ?q := ?c]\<rparr>"
    unfolding w' by (simp add: set_slot_def)
  from store_head [OF wf pos, of ?c] ws
  show "queue_wf h (watingResponseQueue w')" "waiting h (watingResponseQueue w') = ?c # cs"
    unfolding q' by simp_all
  show "trace w' = trace w @ (if serialPort w then [Written (packet h (command c) (paramData c))] else [])"
    "rxWaiting w' = rxWaiting w" "serialPort w' = serialPort w"
    "itemCount (watingResponseQueue w') = itemCount (watingResponseQueue w)"
    "headPos (watingResponseQueue w') = headPos (watingResponseQueue w)"
    "tailPos (watingResponseQueue w') = tailPos (watingResponseQueue w)"
    unfolding w' by simp_all
qed

text \<open>One round of the supervisor on a well-formed ring, by the contexts waiting.\<close>

lemma getWaitingResponse_empty:
  "queue_wf h (watingResponseQueue w) \<Longrightarrow> waiting h (watingResponseQueue w) = [] \<Longrightarrow>
     getWaitingResponse h now w = (None, w)"
  by (subst getWaitingResponse.simps) (simp add: peek_wf waiting_Nil_iff)

lemma getWaitingResponse_head:
  assumes "queue_wf h (watingResponseQueue w)" "waiting h (watingResponseQueue w) = c # cs"
  shows "getWaitingResponse h now w =
     (if timed_out now c then
        (if maxRetryTimes c > 0
         then (None, retry_slot h now (headPos (watingResponseQueue w)) w)
         else getWaitingResponse h now (timeout_slot h (headPos (watingResponseQueue w)) w))
      else (Some (headPos (watingResponseQueue w)), w))"
  using head_slot [OF assms] assms(1)
  by (subst getWaitingResponse.simps) (simp add: peek_wf)

lemma getWaitingResponse_chain:
  assumes "queue_wf h (watingResponseQueue w)"
    and "waiting h (watingResponseQueue w) = cs @ rest"
    and "\<forall>c\<in>set cs. timed_out now c \<and> maxRetryTimes c \<le> 0"
    and "rest = [] \<or> \<not> timed_out now (hd rest)"
  shows "\<exists>w'. getWaitingResponse h now w
            = (if rest = [] then None else Some (headPos (watingResponseQueue w')), w') \<and>
          queue_wf h (watingResponseQueue w') \<and>
          waiting h (watingResponseQueue w') = rest \<and>
          trace w' = trace w
             @ concat (map (\<lambda>c. callback_events (c\<lparr>result := RCDEVICE_RESP_TIMEOUT\<rparr>)) cs) \<and>
          rxWaiting w' = rxWaiting w \<and> serialPort w' = serialPort w"
  using assms
proof (induction cs arbitrary: w)
  case Nil
  show ?case
  proof (cases rest)
    case Nil
    with Nil.prems show ?thesis
      by (simp add: getWaitingResponse_empty)
  next
    case (Cons c cs')
    with Nil.prems have "\<not> timed_out now c" by simp
    with Nil.prems Cons show ?thesis
      by (simp add: getWaitingResponse_head [where c = c and cs = cs'])
  qed
next
  case (Cons c cs)
  let ?w1 = "timeout_slot h (headPos (watingResponseQueue w)) w"
  from Cons.prems have ws: "waiting h (watingResponseQueue w) = c # (cs @ rest)"
    and to: "timed_out now c" "\<not> maxRetryTimes c > 0"
    by auto
  note p = timeout_slot_props [OF Cons.prems(1) ws]
  have step: "getWaitingResponse h now w = getWaitingResponse h now ?w1"
    using to by (simp add: getWaitingResponse_head [OF Cons.prems(1) ws])
  from Cons.prems have rest: "\<forall>c\<in>set cs. timed_out now c \<and> maxRetryTimes c \<le> 0" by simp
  from Cons.IH [OF p(1) p(2) rest Cons.prems(4)] obtain w' where
    w': "getWaitingResponse h now ?w1
            = (if rest = [] then None else Some (headPos (watingResponseQueue w')), w')"
      "queue_wf h (watingResponseQueue w')" "waiting h (watingResponseQueue w') = rest"
      "trace w' = trace ?w1
             @ concat (map (\<lambda>c. callback_events (c\<lparr>result := RCDEVICE_RESP_TIMEOUT\<rparr>)) cs)"
      "rxWaiting w' = rxWaiting ?w1" "serialPort w' = serialPort ?w1"
    by blast
  show ?case
    unfolding step using w' p(3,4,5) by (intro exI [of _ w']) simp
qed

lemma receive_no_bytes:
  assumes "rxWaiting w = []"
  shows "rcdeviceReceive h millis w = Inr (snd (getWaitingResponse h (millis 0) w))"
proof -
  obtain r w1 where g: "getWaitingResponse h (millis 0) w = (r, w1)"
    by (cases "getWaitingResponse h (millis 0) w")
  have "rxWaiting w1 = []"
    using getWaitingResponse_rxWaiting [of h "millis 0" w] g assms by simp
  then show ?thesis
    unfolding rcdeviceReceive_def using g
    by (subst rcdeviceReceive_loop.simps) (simp split: option.splits)
qed

lemma getWaitingResponse_trace:
  "\<exists>es. trace (snd (getWaitingResponse h now w)) = trace w @ es"
proof (induction h now w rule: getWaitingResponse.induct)
  case (1 h now w)
  show ?case
  proof (cases "rcdeviceRespCtxQueuePeekFront h (watingResponseQueue w)")
    case None
    then show ?thesis by (subst getWaitingResponse.simps) simp
  next
    case (Some i)
    let ?c = "buffer (watingResponseQueue w) ! i"
    show ?thesis
    proof (cases "timed_out now ?c")
      case False
      with Some show ?thesis by (subst getWaitingResponse.simps) simp
    next
      case True
      show ?thesis
      proof (cases "maxRetryTimes ?c > 0")
        case retry: True
        with Some True show ?thesis
          by (subst getWaitingResponse.simps) (simp add: retry_slot_def Let_def)
      next
        case False
        have t: "trace (timeout_slot h i w)
            = trace w @ callback_events (?c\<lparr>result := RCDEVICE_RESP_TIMEOUT\<rparr>)"
          by (simp add: timeout_slot_def Let_def trace_call_parserFunc)
        from "1.IH" [OF Some True False] obtain es where
          "trace (snd (getWaitingResponse h now (timeout_slot h i w)))
             = trace (timeout_slot h i w) @ es"
          by blast
        with Some True False t show ?thesis
          by (subst getWaitingResponse.simps) simp
      qed
    qed
  qed
qed

lemma retries_then_timeout:
  assumes "queue_wf h (watingResponseQueue w)"
    and "waiting h (watingResponseQueue w) = c # rest"
    and "rxWaiting w = []" and "serialPort w"
    and "0 \<le> maxRetryTimes c" and "length ts = nat (maxRetryTimes c) + 1"
    and "deadlines_missed (timeoutTimestamp c) (timeout c) ts"
  shows "\<exists>w1 d. polls h ts w = Inr (snd (getWaitingResponse h (last ts) w1)) \<and>
          queue_wf h (watingResponseQueue w1) \<and>
          waiting h (watingResponseQueue w1) = rest \<and>
          trace w1 = trace w
             @ replicate (nat (maxRetryTimes c)) (Written (packet h (command c) (paramData c)))
             @ callback_events (c\<lparr>timeoutTimestamp := d, maxRetryTimes := 0,
                                   result := RCDEVICE_RESP_TIMEOUT\<rparr>)"
  using assms
proof (induction ts arbitrary: w c)
  case Nil
  then show ?case by simp
next
  case (Cons t ts)
  from Cons.prems have to: "timed_out t c"
    by (simp add: timed_out_def)
  have rcv: "rcdeviceReceive h (\<lambda>k. t) w = Inr (snd (getWaitingResponse h t w))"
    using receive_no_bytes [OF Cons.prems(3)] by simp
  show ?case
  proof (cases "maxRetryTimes c > 0")
    case False
    with Cons.prems have r0: "maxRetryTimes c = 0" and ts: "ts = []" by simp_all
    let ?w1 = "timeout_slot h (headPos (watingResponseQueue w)) w"
    note p = timeout_slot_props [OF Cons.prems(1,2)]
    have g: "getWaitingResponse h t w = getWaitingResponse h t ?w1"
      using to False by (simp add: getWaitingResponse_head [OF Cons.prems(1,2)])
    have same: "c\<lparr>result := RCDEVICE_RESP_TIMEOUT\<rparr>
        = c\<lparr>timeoutTimestamp := timeoutTimestamp c, maxRetryTimes := 0,
             result := RCDEVICE_RESP_TIMEOUT\<rparr>"
      using r0 by simp
    have "polls h (t # ts) w = Inr (snd (getWaitingResponse h (last (t # ts)) ?w1))"
      using rcv g ts by simp
    moreover have "trace ?w1 = trace w
             @ replicate (nat (maxRetryTimes c)) (Written (packet h (command c) (paramData c)))
             @ callback_events (c\<lparr>timeoutTimestamp := timeoutTimestamp c, maxRetryTimes := 0,
                                   result := RCDEVICE_RESP_TIMEOUT\<rparr>)"
      using p(3) r0 same by simp
    ultimately show ?thesis using p(1,2) by blast
  next
    case True
    let ?wr = "retry_slot h t (headPos (watingResponseQueue w)) w"
    let ?c1 = "c\<lparr>timeoutTimestamp := t + timeout c, maxRetryTimes := maxRetryTimes c - 1\<rparr>"
    note p = retry_slot_props [OF Cons.prems(1,2), of t]
    have g: "getWaitingResponse h t w = (None, ?wr)"
      using to True by (simp add: getWaitingResponse_head [OF Cons.prems(1,2)])
    have len: "length ts = nat (maxRetryTimes ?c1) + 1"
      using Cons.prems(6) True by simp
    then have ne: "ts \<noteq> []" by auto
    have dm: "deadlines_missed (timeoutTimestamp ?c1) (timeout ?c1) ts"
      using Cons.prems(7) by simp
    have "0 \<le> maxRetryTimes ?c1" using True by simp
    from Cons.IH [OF p(1) p(2) _ _ this len dm] p(4,5) Cons.prems(3,4)
    obtain w1 d where w1: "polls h ts ?wr = Inr (snd (getWaitingResponse h (last ts) w1))"
      "queue_wf h (watingResponseQueue w1)" "waiting h (watingResponseQueue w1) = rest"
      "trace w1 = trace ?wr
             @ replicate (nat (maxRetryTimes ?c1)) (Written (packet h (command ?c1) (paramData ?c1)))
             @ callback_events (?c1\<lparr>timeoutTimestamp := d, maxRetryTimes := 0,
                                   result := RCDEVICE_RESP_TIMEOUT\<rparr>)"
      by auto
    have n: "nat (maxRetryTimes c) = Suc (nat (maxRetryTimes c - 1))"
      using True by simp
    have "polls h (t # ts) w = Inr (snd (getWaitingResponse h (last (t # ts)) w1))"
      using rcv g w1(1) ne by simp
    moreover have "trace w1 = trace w
             @ replicate (nat (maxRetryTimes c)) (Written (packet h (command c) (paramData c)))
             @ callback_events (c\<lparr>timeoutTimestamp := d, maxRetryTimes := 0,
                                   result := RCDEVICE_RESP_TIMEOUT\<rparr>)"
      unfolding w1(4) p(3) n using Cons.prems(4) by simp
    ultimately show ?thesis using w1(2,3) by blast
  qed
qed

lemma empty_queue_wf:
  "0 < MAX_WAITING_RESPONSES h \<Longrightarrow> queue_wf h (empty_queue h) \<and> waiting h (empty_queue h) = []"
  by (simp add: queue_wf_def waiting_def empty_queue_def)

lemma example_world_waiting:
  assumes "length cs \<le> 20"
  shows "queue_wf example_h (watingResponseQueue (example_world cs rx))"
    "waiting example_h (watingResponseQueue (example_world cs rx)) = cs"
    "rxWaiting (example_world cs rx) = rx" "trace (example_world cs rx) = []"
    "serialPort (example_world cs rx)"
proof -
  have e: "queue_wf example_h (empty_queue example_h)" "waiting example_h (empty_queue example_h) = []"
    using empty_queue_wf [of example_h] by simp_all
  have "itemCount (empty_queue example_h) + length cs \<le> MAX_WAITING_RESPONSES example_h"
    using assms by (simp add: empty_queue_def)
  from push_all_ok [OF e(1) this] e(2)
  show "queue_wf example_h (watingResponseQueue (example_world cs rx))"
    "waiting example_h (watingResponseQueue (example_world cs rx)) = cs"
    by (simp_all add: example_world_def)
  show "rxWaiting (example_world cs rx) = rx" "trace (example_world cs rx) = []"
    "serialPort (example_world cs rx)"
    by (simp_all add: example_world_def)
qed

lemma example_ctx_fields [simp]:
  "timeoutTimestamp example_ctx_connection = 1200" "maxRetryTimes example_ctx_connection = 1"
  "timeout example_ctx_connection = 200"
  "timeoutTimestamp example_ctx_info = 6000" "maxRetryTimes example_ctx_info = 0"
  "timeoutTimestamp example_ctx_wrapped = 0" "maxRetryTimes example_ctx_wrapped = 1"
  by (simp_all add: example_ctx_connection_def example_ctx_info_def example_ctx_wrapped_def
      new_responseCtx_def)

lemma example_ctx_wrapped_info_fields [simp]:
  "timeoutTimestamp example_ctx_wrapped_info = 0" "maxRetryTimes example_ctx_wrapped_info = 0"
  by (simp_all add: example_ctx_wrapped_info_def new_responseCtx_def)

lemma example_ctx_spent_fields [simp]:
  "timeoutTimestamp example_ctx_spent = 1200" "maxRetryTimes example_ctx_spent = 0"
  "parserFunc example_ctx_spent = Some 1" "parserFunc example_ctx_info = Some 2"
  "parserFunc example_ctx_connection = Some 1"
  "command example_ctx_connection = 0x04" "paramData example_ctx_connection = [0x01]"
  by (simp_all add: example_ctx_spent_def example_ctx_connection_def example_ctx_info_def
      new_responseCtx_def)

section \<open>The deadline 0 means no deadline\<close>

text \<open>
  Claim C10. When the context at the head of the ring has the deadline
  \<open>timeoutTimestamp = 0\<close>, the supervisor returns it as the context to receive into and
  changes nothing, at every clock value and with every retry count: no packet is sent
  again and no timed-out result is set.
\<close>

theorem zero_deadline_never_expires:
  assumes "rcdeviceRespCtxQueuePeekFront h (watingResponseQueue w) = Some i"
    and "timeoutTimestamp (buffer (watingResponseQueue w) ! i) = 0"
  shows "getWaitingResponse h now w = (Some i, w)"
  using assms by (subst getWaitingResponse.simps) (simp add: timed_out_def)

theorem zero_deadline_never_expires_witness:
  "rcdeviceRespCtxQueuePeekFront example_h
      (watingResponseQueue (example_world [example_ctx_wrapped] [])) = Some 0 \<and>
   timeoutTimestamp (buffer (watingResponseQueue (example_world [example_ctx_wrapped] [])) ! 0) = 0 \<and>
   getWaitingResponse example_h 4000000000 (example_world [example_ctx_wrapped] [])
     = (Some 0, example_world [example_ctx_wrapped] [])"
proof -
  have a: "rcdeviceRespCtxQueuePeekFront example_h
      (watingResponseQueue (example_world [example_ctx_wrapped] [])) = Some 0"
    by (simp add: example_world_def empty_queue_def rcdeviceRespCtxQueuePushRespCtx_def
        rcdeviceRespCtxQueuePeekFront_def)
  have b: "timeoutTimestamp (buffer (watingResponseQueue (example_world [example_ctx_wrapped] [])) ! 0) = 0"
    by (simp add: example_world_def empty_queue_def rcdeviceRespCtxQueuePushRespCtx_def)
  from zero_deadline_never_expires [OF a b] a b show ?thesis by simp
qed

section \<open>A missed deadline with retries left\<close>

text \<open>
  Claim C3, amended. When the deadline of the head context is not 0 and lies before the
  clock value, and the retry count is positive, the supervisor sends the packet of the
  context's command and parameters again (if the port is open), without a push: the ring's
  count and positions stay. It sets the deadline to the clock value plus the timeout,
  takes one off the retry count and returns no context, so that \<^verbatim>\<open>rcdeviceReceive\<close>
  returns without reading a byte. No callback is called.
\<close>

theorem retry_on_missed_deadline:
  assumes "queue_wf h (watingResponseQueue w)"
    and "waiting h (watingResponseQueue w) = c # cs"
    and "timeoutTimestamp c \<noteq> 0" and "now > timeoutTimestamp c" and "maxRetryTimes c > 0"
    and "millis k = now"
  shows "\<exists>w'. getWaitingResponse h now w = (None, w') \<and>
          rcdeviceReceive_loop h millis k w = Inr w' \<and>
          waiting h (watingResponseQueue w')
            = c\<lparr>timeoutTimestamp := now + timeout c, maxRetryTimes := maxRetryTimes c - 1\<rparr> # cs \<and>
          itemCount (watingResponseQueue w') = itemCount (watingResponseQueue w) \<and>
          headPos (watingResponseQueue w') = headPos (watingResponseQueue w) \<and>
          tailPos (watingResponseQueue w') = tailPos (watingResponseQueue w) \<and>
          trace w' = trace w
            @ (if serialPort w then [Written (packet h (command c) (paramData c))] else []) \<and>
          rxWaiting w' = rxWaiting w"
proof -
  let ?w' = "retry_slot h now (headPos (watingResponseQueue w)) w"
  note p = retry_slot_props [OF assms(1,2), of now]
  have g: "getWaitingResponse h now w = (None, ?w')"
    using assms(3,4,5) by (simp add: getWaitingResponse_head [OF assms(1,2)] timed_out_def)
  have "rcdeviceReceive_loop h millis k w = Inr ?w'"
    using g assms(6) by (subst rcdeviceReceive_loop.simps) simp
  with g p show ?thesis by blast
qed

theorem retry_on_missed_deadline_witness:
  "queue_wf example_h (watingResponseQueue (example_world [example_ctx_connection, example_ctx_info] [7])) \<and>
   waiting example_h (watingResponseQueue (example_world [example_ctx_connection, example_ctx_info] [7]))
     = [example_ctx_connection, example_ctx_info] \<and>
   timeoutTimestamp example_ctx_connection \<noteq> 0 \<and>
   (1300 :: timeUs_t) > timeoutTimestamp example_ctx_connection \<and>
   maxRetryTimes example_ctx_connection > 0 \<and>
   (\<exists>w'. getWaitingResponse example_h 1300 (example_world [example_ctx_connection, example_ctx_info] [7])
            = (None, w') \<and>
         rcdeviceReceive_loop example_h (\<lambda>k. 1300) 0
            (example_world [example_ctx_connection, example_ctx_info] [7]) = Inr w' \<and>
         waiting example_h (watingResponseQueue w')
            = [example_ctx_connection\<lparr>timeoutTimestamp := 1500, maxRetryTimes := 0\<rparr>,
               example_ctx_info] \<and>
         trace w' = [Written (packet example_h 0x04 [0x01])] \<and>
         rxWaiting w' = [7])"
proof -
  let ?w = "example_world [example_ctx_connection, example_ctx_info] [7]"
  note e = example_world_waiting [of "[example_ctx_connection, example_ctx_info]" "[7]"]
  have a: "queue_wf example_h (watingResponseQueue ?w)"
    and b: "waiting example_h (watingResponseQueue ?w) = [example_ctx_connection, example_ctx_info]"
    using e by simp_all
  have c: "timeoutTimestamp example_ctx_connection \<noteq> 0"
    "(1300 :: timeUs_t) > timeoutTimestamp example_ctx_connection"
    "maxRetryTimes example_ctx_connection > 0"
    by simp_all
  have cmd: "command example_ctx_connection = 0x04" "paramData example_ctx_connection = [0x01]"
    by (simp_all add: example_ctx_connection_def new_responseCtx_def)
  from retry_on_missed_deadline [OF a b c, of "\<lambda>k. 1300" 0] e(3,4,5) cmd
  have "\<exists>w'. getWaitingResponse example_h 1300 ?w = (None, w') \<and>
         rcdeviceReceive_loop example_h (\<lambda>k. 1300) 0 ?w = Inr w' \<and>
         waiting example_h (watingResponseQueue w')
            = [example_ctx_connection\<lparr>timeoutTimestamp := 1500, maxRetryTimes := 0\<rparr>,
               example_ctx_info] \<and>
         trace w' = [Written (packet example_h 0x04 [0x01])] \<and>
         rxWaiting w' = [7]"
    by simp blast
  with a b c show ?thesis by blast
qed

text \<open>
  The claim as it was stated, with "expired" meaning only \<open>now > deadline\<close>, fails for the
  deadline 0: the request below was made 200 ms before the clock wrapped, has one retry
  left, and at clock value 5 it is returned as it is, with nothing sent.
\<close>

theorem retry_zero_deadline_counterexample:
  "(5 :: timeUs_t) > timeoutTimestamp example_ctx_wrapped \<and>
   maxRetryTimes example_ctx_wrapped > 0 \<and>
   waiting example_h (watingResponseQueue (example_world [example_ctx_wrapped] [])) = [example_ctx_wrapped] \<and>
   getWaitingResponse example_h 5 (example_world [example_ctx_wrapped] [])
     = (Some 0, example_world [example_ctx_wrapped] [])"
proof -
  let ?w = "example_world [example_ctx_wrapped] []"
  note e = example_world_waiting [of "[example_ctx_wrapped]" "[]"]
  have h0: "headPos (watingResponseQueue ?w) = 0"
    by (simp add: example_world_def empty_queue_def rcdeviceRespCtxQueuePushRespCtx_def)
  have "getWaitingResponse example_h 5 ?w = (Some 0, ?w)"
    using e by (simp add: getWaitingResponse_head [where c = example_ctx_wrapped and cs = "[]"]
        timed_out_def h0)
  with e show ?thesis by simp
qed

section \<open>A missed deadline with no retry left\<close>

text \<open>
  Claim C2, amended. When the deadline of the head context is not 0 and lies before the
  clock value, and the retry count is 0, the supervisor sets the result to timed out, calls
  the callback (if there is one) once, shifts the ring, and goes on with the new head by
  the same rule in the same call. So a run of such contexts at the head is resolved in one
  call, the callbacks being called in the order of the ring. And a request at the head of
  the ring with \<open>R \<ge> 0\<close> retries, on an open port that never gets a byte, polled \<open>R + 1\<close>
  times, each time after the deadline then in force (none of them 0), has its frame
  (header, command, parameters, checksum) written again \<open>R\<close> times and then its callback
  called once with the timed-out result; it is then shifted out, and the last poll goes on
  with the contexts that were behind it, adding only to the trace. With none behind, the
  retransmissions and the one callback are all that happens.
\<close>

theorem timed_out_heads_resolved:
  "(queue_wf h (watingResponseQueue w) \<and> waiting h (watingResponseQueue w) = c # cs \<and>
    timeoutTimestamp c \<noteq> 0 \<and> now > timeoutTimestamp c \<and> maxRetryTimes c = 0 \<longrightarrow>
      (\<exists>w1. getWaitingResponse h now w = getWaitingResponse h now w1 \<and>
            queue_wf h (watingResponseQueue w1) \<and>
            waiting h (watingResponseQueue w1) = cs \<and>
            trace w1 = trace w @ callback_events (c\<lparr>result := RCDEVICE_RESP_TIMEOUT\<rparr>) \<and>
            rxWaiting w1 = rxWaiting w \<and> serialPort w1 = serialPort w)) \<and>
   (queue_wf h (watingResponseQueue w) \<and> waiting h (watingResponseQueue w) = xs @ rest \<and>
    (\<forall>x\<in>set xs. timeoutTimestamp x \<noteq> 0 \<and> now > timeoutTimestamp x \<and> maxRetryTimes x = 0) \<and>
    (rest = [] \<or> \<not> timed_out now (hd rest)) \<longrightarrow>
      (\<exists>w'. getWaitingResponse h now w
               = (if rest = [] then None else Some (headPos (watingResponseQueue w')), w') \<and>
            waiting h (watingResponseQueue w') = rest \<and>
            trace w' = trace w
               @ concat (map (\<lambda>x. callback_events (x\<lparr>result := RCDEVICE_RESP_TIMEOUT\<rparr>)) xs))) \<and>
   (queue_wf h (watingResponseQueue v) \<and> waiting h (watingResponseQueue v) = r # behind \<and>
    rxWaiting v = [] \<and> serialPort v \<and> 0 \<le> maxRetryTimes r \<and>
    length ts = nat (maxRetryTimes r) + 1 \<and>
    deadlines_missed (timeoutTimestamp r) (timeout r) ts \<longrightarrow>
      (\<exists>v' v1 d es. polls h ts v = Inr v' \<and>
            v' = snd (getWaitingResponse h (last ts) v1) \<and>
            queue_wf h (watingResponseQueue v1) \<and>
            waiting h (watingResponseQueue v1) = behind \<and>
            trace v1 = trace v
               @ replicate (nat (maxRetryTimes r))
                   (Written (RCDEVICE_PROTOCOL_HEADER h # command r # paramData r
                      @ [foldl (crc8_dvb_s2 h) 0
                           (RCDEVICE_PROTOCOL_HEADER h # command r # paramData r)]))
               @ callback_events (r\<lparr>timeoutTimestamp := d, maxRetryTimes := 0,
                                     result := RCDEVICE_RESP_TIMEOUT\<rparr>) \<and>
            trace v' = trace v1 @ es \<and>
            (behind = [] \<longrightarrow> v' = v1)))"
proof -
  have one: "\<exists>w1. getWaitingResponse h now w = getWaitingResponse h now w1 \<and>
            queue_wf h (watingResponseQueue w1) \<and>
            waiting h (watingResponseQueue w1) = cs \<and>
            trace w1 = trace w @ callback_events (c\<lparr>result := RCDEVICE_RESP_TIMEOUT\<rparr>) \<and>
            rxWaiting w1 = rxWaiting w \<and> serialPort w1 = serialPort w"
    if a: "queue_wf h (watingResponseQueue w) \<and> waiting h (watingResponseQueue w) = c # cs \<and>
      timeoutTimestamp c \<noteq> 0 \<and> now > timeoutTimestamp c \<and> maxRetryTimes c = 0"
  proof -
    let ?w1 = "timeout_slot h (headPos (watingResponseQueue w)) w"
    from a have wf: "queue_wf h (watingResponseQueue w)"
      and ws: "waiting h (watingResponseQueue w) = c # cs" by simp_all
    note p = timeout_slot_props [OF wf ws]
    have "getWaitingResponse h now w = getWaitingResponse h now ?w1"
      using a by (simp add: getWaitingResponse_head [OF wf ws] timed_out_def)
    with p show ?thesis by blast
  qed
  have two: "\<exists>w'. getWaitingResponse h now w
               = (if rest = [] then None else Some (headPos (watingResponseQueue w')), w') \<and>
            waiting h (watingResponseQueue w') = rest \<and>
            trace w' = trace w
               @ concat (map (\<lambda>x. callback_events (x\<lparr>result := RCDEVICE_RESP_TIMEOUT\<rparr>)) xs)"
    if a: "queue_wf h (watingResponseQueue w) \<and> waiting h (watingResponseQueue w) = xs @ rest \<and>
      (\<forall>x\<in>set xs. timeoutTimestamp x \<noteq> 0 \<and> now > timeoutTimestamp x \<and> maxRetryTimes x = 0) \<and>
      (rest = [] \<or> \<not> timed_out now (hd rest))"
  proof -
    from a have "\<forall>x\<in>set xs. timed_out now x \<and> maxRetryTimes x \<le> 0"
      by (simp add: timed_out_def)
    from getWaitingResponse_chain [of h w xs rest now, OF _ _ this] a
    show ?thesis by blast
  qed
  have three: "\<exists>v' v1 d es. polls h ts v = Inr v' \<and>
            v' = snd (getWaitingResponse h (last ts) v1) \<and>
            queue_wf h (watingResponseQueue v1) \<and>
            waiting h (watingResponseQueue v1) = behind \<and>
            trace v1 = trace v
               @ replicate (nat (maxRetryTimes r))
                   (Written (RCDEVICE_PROTOCOL_HEADER h # command r # paramData r
                      @ [foldl (crc8_dvb_s2 h) 0
                           (RCDEVICE_PROTOCOL_HEADER h # command r # paramData r)]))
               @ callback_events (r\<lparr>timeoutTimestamp := d, maxRetryTimes := 0,
                                     result := RCDEVICE_RESP_TIMEOUT\<rparr>) \<and>
            trace v' = trace v1 @ es \<and>
            (behind = [] \<longrightarrow> v' = v1)"
    if a: "queue_wf h (watingResponseQueue v) \<and> waiting h (watingResponseQueue v) = r # behind \<and>
      rxWaiting v = [] \<and> serialPort v \<and> 0 \<le> maxRetryTimes r \<and>
      length ts = nat (maxRetryTimes r) + 1 \<and>
      deadlines_missed (timeoutTimestamp r) (timeout r) ts"
  proof -
    from a retries_then_timeout [of h v r behind ts] obtain v1 d where
      v1: "polls h ts v = Inr (snd (getWaitingResponse h (last ts) v1))"
        "queue_wf h (watingResponseQueue v1)" "waiting h (watingResponseQueue v1) = behind"
        "trace v1 = trace v
             @ replicate (nat (maxRetryTimes r)) (Written (packet h (command r) (paramData r)))
             @ callback_events (r\<lparr>timeoutTimestamp := d, maxRetryTimes := 0,
                                   result := RCDEVICE_RESP_TIMEOUT\<rparr>)"
      by blast
    let ?v' = "snd (getWaitingResponse h (last ts) v1)"
    from getWaitingResponse_trace [of h "last ts" v1] obtain es where
      es: "trace ?v' = trace v1 @ es" by blast
    have last: "?v' = v1" if "behind = []"
      using that v1(2,3) by (simp add: getWaitingResponse_empty)
    from v1 es last show ?thesis
      unfolding packet_bytes by blast
  qed
  from one two three show ?thesis by blast
qed

theorem timed_out_heads_resolved_witness:
  "queue_wf example_h (watingResponseQueue (example_world [example_ctx_spent, example_ctx_info] [])) \<and>
   waiting example_h (watingResponseQueue (example_world [example_ctx_spent, example_ctx_info] []))
     = [example_ctx_spent, example_ctx_info] @ [] \<and>
   timeoutTimestamp example_ctx_spent \<noteq> 0 \<and>
   (7000 :: timeUs_t) > timeoutTimestamp example_ctx_spent \<and>
   maxRetryTimes example_ctx_spent = 0 \<and>
   timeoutTimestamp example_ctx_info \<noteq> 0 \<and>
   (7000 :: timeUs_t) > timeoutTimestamp example_ctx_info \<and>
   maxRetryTimes example_ctx_info = 0 \<and>
   queue_wf example_h
     (watingResponseQueue (example_world [example_ctx_connection, example_ctx_info] [])) \<and>
   waiting example_h
     (watingResponseQueue (example_world [example_ctx_connection, example_ctx_info] []))
     = [example_ctx_connection, example_ctx_info] \<and>
   rxWaiting (example_world [example_ctx_connection, example_ctx_info] []) = [] \<and>
   serialPort (example_world [example_ctx_connection, example_ctx_info] []) \<and>
   0 \<le> maxRetryTimes example_ctx_connection \<and>
   length [1300, 1600 :: timeUs_t] = nat (maxRetryTimes example_ctx_connection) + 1 \<and>
   deadlines_missed (timeoutTimestamp example_ctx_connection) (timeout example_ctx_connection)
     [1300, 1600] \<and>
   (\<exists>w1. getWaitingResponse example_h 7000 (example_world [example_ctx_spent, example_ctx_info] [])
            = getWaitingResponse example_h 7000 w1 \<and>
         waiting example_h (watingResponseQueue w1) = [example_ctx_info] \<and>
         trace w1 = [Called 1 (example_ctx_spent\<lparr>result := RCDEVICE_RESP_TIMEOUT\<rparr>)]) \<and>
   (\<exists>w'. getWaitingResponse example_h 7000 (example_world [example_ctx_spent, example_ctx_info] [])
            = (None, w') \<and>
         waiting example_h (watingResponseQueue w') = [] \<and>
         trace w' = [Called 1 (example_ctx_spent\<lparr>result := RCDEVICE_RESP_TIMEOUT\<rparr>),
                     Called 2 (example_ctx_info\<lparr>result := RCDEVICE_RESP_TIMEOUT\<rparr>)]) \<and>
   (\<exists>v' d. polls example_h [1300, 1600] (example_world [example_ctx_connection, example_ctx_info] [])
            = Inr v' \<and>
         trace v' = [Written [0xCC, 0x04, 0x01, 0xC0],
                     Called 1 (example_ctx_connection\<lparr>timeoutTimestamp := d, maxRetryTimes := 0,
                                                        result := RCDEVICE_RESP_TIMEOUT\<rparr>)] \<and>
         waiting example_h (watingResponseQueue v') = [example_ctx_info])"
proof -
  let ?w = "example_world [example_ctx_spent, example_ctx_info] []"
  let ?v = "example_world [example_ctx_connection, example_ctx_info] []"
  note e = example_world_waiting [of "[example_ctx_spent, example_ctx_info]" "[]"]
  note f = example_world_waiting [of "[example_ctx_connection, example_ctx_info]" "[]"]
  have hyp: "queue_wf example_h (watingResponseQueue ?w)"
    "waiting example_h (watingResponseQueue ?w) = [example_ctx_spent, example_ctx_info] @ []"
    "\<forall>x\<in>set [example_ctx_spent, example_ctx_info].
      timeoutTimestamp x \<noteq> 0 \<and> (7000 :: timeUs_t) > timeoutTimestamp x \<and> maxRetryTimes x = 0"
    "queue_wf example_h (watingResponseQueue ?v)"
    "waiting example_h (watingResponseQueue ?v) = [example_ctx_connection, example_ctx_info]"
    "rxWaiting ?v = []" "serialPort ?v" "0 \<le> maxRetryTimes example_ctx_connection"
    "length [1300, 1600 :: timeUs_t] = nat (maxRetryTimes example_ctx_connection) + 1"
    "deadlines_missed (timeoutTimestamp example_ctx_connection) (timeout example_ctx_connection)
       [1300, 1600]"
    using e f by simp_all
  note t = timed_out_heads_resolved [where h = example_h and w = ?w and c = example_ctx_spent
      and cs = "[example_ctx_info]" and now = 7000 and xs = "[example_ctx_spent, example_ctx_info]"
      and rest = "[]" and v = ?v and r = example_ctx_connection and behind = "[example_ctx_info]"
      and ts = "[1300, 1600]"]
  from t hyp e(4) have one: "\<exists>w1. getWaitingResponse example_h 7000 ?w
            = getWaitingResponse example_h 7000 w1 \<and>
         waiting example_h (watingResponseQueue w1) = [example_ctx_info] \<and>
         trace w1 = [Called 1 (example_ctx_spent\<lparr>result := RCDEVICE_RESP_TIMEOUT\<rparr>)]"
    by (simp add: callback_events_def) blast
  from t hyp e(4) have two: "\<exists>w'. getWaitingResponse example_h 7000 ?w = (None, w') \<and>
         waiting example_h (watingResponseQueue w') = [] \<and>
         trace w' = [Called 1 (example_ctx_spent\<lparr>result := RCDEVICE_RESP_TIMEOUT\<rparr>),
                     Called 2 (example_ctx_info\<lparr>result := RCDEVICE_RESP_TIMEOUT\<rparr>)]"
    by (simp add: callback_events_def)
  from t hyp obtain v' v1 d where v: "polls example_h [1300, 1600] ?v = Inr v'"
    "v' = snd (getWaitingResponse example_h (last [1300, 1600]) v1)"
    "queue_wf example_h (watingResponseQueue v1)"
    "waiting example_h (watingResponseQueue v1) = [example_ctx_info]"
    "trace v1 = trace ?v
       @ replicate (nat (maxRetryTimes example_ctx_connection))
           (Written (RCDEVICE_PROTOCOL_HEADER example_h # command example_ctx_connection
              # paramData example_ctx_connection
              @ [foldl (crc8_dvb_s2 example_h) 0
                   (RCDEVICE_PROTOCOL_HEADER example_h # command example_ctx_connection
                      # paramData example_ctx_connection)]))
       @ callback_events (example_ctx_connection\<lparr>timeoutTimestamp := d, maxRetryTimes := 0,
                                     result := RCDEVICE_RESP_TIMEOUT\<rparr>)"
    by blast
  have "getWaitingResponse example_h 1600 v1 = (Some (headPos (watingResponseQueue v1)), v1)"
    using getWaitingResponse_head [OF v(3,4), of 1600] by (simp add: timed_out_def)
  with v(2) have same: "v' = v1" by simp
  have "trace v' = [Written [0xCC, 0x04, 0x01, 0xC0],
                     Called 1 (example_ctx_connection\<lparr>timeoutTimestamp := d, maxRetryTimes := 0,
                                                        result := RCDEVICE_RESP_TIMEOUT\<rparr>)]"
    unfolding same v(5) using f(4)
    by (simp add: callback_events_def example_crc_shift_numeral)
  with v(1,4) same have three: "\<exists>v' d. polls example_h [1300, 1600] ?v = Inr v' \<and>
         trace v' = [Written [0xCC, 0x04, 0x01, 0xC0],
                     Called 1 (example_ctx_connection\<lparr>timeoutTimestamp := d, maxRetryTimes := 0,
                                                        result := RCDEVICE_RESP_TIMEOUT\<rparr>)] \<and>
         waiting example_h (watingResponseQueue v') = [example_ctx_info]"
    by blast
  have each: "timeoutTimestamp example_ctx_spent \<noteq> 0"
    "(7000 :: timeUs_t) > timeoutTimestamp example_ctx_spent" "maxRetryTimes example_ctx_spent = 0"
    "timeoutTimestamp example_ctx_info \<noteq> 0"
    "(7000 :: timeUs_t) > timeoutTimestamp example_ctx_info" "maxRetryTimes example_ctx_info = 0"
    by simp_all
  from hyp(1,2,4-10) each one two three show ?thesis by blast
qed

text \<open>
  The claim as it was stated fails for the deadline 0: the request below was made 5000 ms
  before the clock wrapped, has no retry, and at clock value 5 it stays at the head with
  its result untouched and no callback called.
\<close>

theorem timeout_zero_deadline_counterexample:
  "(5 :: timeUs_t) > timeoutTimestamp example_ctx_wrapped_info \<and>
   maxRetryTimes example_ctx_wrapped_info = 0 \<and>
   waiting example_h (watingResponseQueue (example_world [example_ctx_wrapped_info] []))
     = [example_ctx_wrapped_info] \<and>
   getWaitingResponse example_h 5 (example_world [example_ctx_wrapped_info] [])
     = (Some 0, example_world [example_ctx_wrapped_info] [])"
proof -
  let ?w = "example_world [example_ctx_wrapped_info] []"
  note e = example_world_waiting [of "[example_ctx_wrapped_info]" "[]"]
  have h0: "headPos (watingResponseQueue ?w) = 0"
    by (simp add: example_world_def empty_queue_def rcdeviceRespCtxQueuePushRespCtx_def)
  have "getWaitingResponse example_h 5 ?w = (Some 0, ?w)"
    using e by (simp add: getWaitingResponse_head [where c = example_ctx_wrapped_info and cs = "[]"]
        timed_out_def h0)
  with e show ?thesis by simp
qed

section \<open>Facts about the supervisor, the loop body and the send path\<close>

lemma getWaitingResponse_keeps:
  assumes stable: "\<And>c d r. P c \<Longrightarrow> P (c\<lparr>timeoutTimestamp := d, maxRetryTimes := r\<rparr>)"
    and "queue_wf h (watingResponseQueue w)"
    and "\<forall>c\<in>set (waiting h (watingResponseQueue w)). P c"
  shows "\<exists>r w'. getWaitingResponse h now w = (r, w') \<and>
          queue_wf h (watingResponseQueue w') \<and>
          (\<forall>c\<in>set (waiting h (watingResponseQueue w')). P c) \<and>
          (\<forall>i. r = Some i \<longrightarrow>
             i = headPos (watingResponseQueue w') \<and> waiting h (watingResponseQueue w') \<noteq> []) \<and>
          rxWaiting w' = rxWaiting w \<and> serialPort w' = serialPort w"
  using assms(2,3)
proof (induction "waiting h (watingResponseQueue w)" arbitrary: w)
  case Nil
  then show ?case by (simp add: getWaitingResponse_empty)
next
  case (Cons c cs)
  note ws = Cons.hyps(2) [symmetric]
  note wf = Cons.prems(1)
  show ?case
  proof (cases "timed_out now c")
    case False
    with Cons.prems ws show ?thesis
      by (simp add: getWaitingResponse_head [OF wf ws])
  next
    case True
    show ?thesis
    proof (cases "maxRetryTimes c > 0")
      case retry: True
      let ?w' = "retry_slot h now (headPos (watingResponseQueue w)) w"
      note p = retry_slot_props [OF wf ws, of now]
      have "getWaitingResponse h now w = (None, ?w')"
        using True retry by (simp add: getWaitingResponse_head [OF wf ws])
      moreover have "\<forall>x\<in>set (waiting h (watingResponseQueue ?w')). P x"
        using Cons.prems(2) ws stable by (simp add: p(2))
      ultimately show ?thesis using p(1,4,5) by simp
    next
      case False
      let ?w1 = "timeout_slot h (headPos (watingResponseQueue w)) w"
      note p = timeout_slot_props [OF wf ws]
      have g: "getWaitingResponse h now w = getWaitingResponse h now ?w1"
        using True False by (simp add: getWaitingResponse_head [OF wf ws])
      have "\<forall>x\<in>set (waiting h (watingResponseQueue ?w1)). P x"
        using Cons.prems(2) ws by (simp add: p(2))
      from Cons.hyps(1) [OF p(2) [symmetric] p(1) this] show ?thesis
        unfolding g by (simp add: p(4,5))
    qed
  qed
qed

lemma queue_set_slot:
  "watingResponseQueue (set_slot w i c)
     = (watingResponseQueue w)\<lparr>buffer := (buffer (watingResponseQueue w))[i := c]\<rparr>"
  by (simp add: set_slot_def)

lemma receive_byte_overrun:
  assumes "queue_wf h (watingResponseQueue w)" "waiting h (watingResponseQueue w) = c # cs"
    and "length (recvBuf c) \<le> unat (recvRespLen c)"
  shows "receive_byte h (headPos (watingResponseQueue w)) b w = Inl RecvBufOutOfBounds"
  using head_slot [OF assms(1,2)] assms(3) by (simp add: receive_byte_def)

lemma receive_byte_more:
  assumes wf: "queue_wf h (watingResponseQueue w)" and ws: "waiting h (watingResponseQueue w) = c # cs"
    and fit: "unat (recvRespLen c) < length (recvBuf c)"
    and more: "recvRespLen c + 1 \<noteq> expectedRespLen c"
  shows "\<exists>w'. receive_byte h (headPos (watingResponseQueue w)) b w = Inr w' \<and>
          queue_wf h (watingResponseQueue w') \<and>
          waiting h (watingResponseQueue w')
            = c\<lparr>recvBuf := (recvBuf c)[unat (recvRespLen c) := b],
                 recvRespLen := recvRespLen c + 1\<rparr> # cs \<and>
          headPos (watingResponseQueue w') = headPos (watingResponseQueue w) \<and>
          trace w' = trace w \<and> rxWaiting w' = rxWaiting w \<and> serialPort w' = serialPort w"
proof -
  let ?q = "watingResponseQueue w"
  let ?c1 = "c\<lparr>recvBuf := (recvBuf c)[unat (recvRespLen c) := b], recvRespLen := recvRespLen c + 1\<rparr>"
  from head_slot [OF wf ws] have hdc: "buffer ?q ! headPos ?q = c" and pos: "0 < itemCount ?q"
    by simp_all
  have r: "receive_byte h (headPos ?q) b w = Inr (set_slot w (headPos ?q) ?c1)"
    using fit more by (simp add: receive_byte_def hdc Let_def)
  from store_head [OF wf pos, of ?c1] ws show ?thesis
    unfolding r by (simp add: queue_set_slot)
qed

lemma receive_byte_complete:
  assumes wf: "queue_wf h (watingResponseQueue w)" and ws: "waiting h (watingResponseQueue w) = c # cs"
    and fit: "unat (recvRespLen c) < length (recvBuf c)"
    and full: "recvRespLen c + 1 = expectedRespLen c"
    and ok: "verify_crc h (c\<lparr>recvBuf := (recvBuf c)[unat (recvRespLen c) := b],
                              recvRespLen := recvRespLen c + 1\<rparr>) = Inr c2"
  shows "\<exists>w'. receive_byte h (headPos (watingResponseQueue w)) b w = Inr w' \<and>
          queue_wf h (watingResponseQueue w') \<and>
          waiting h (watingResponseQueue w') = cs \<and>
          buffer (watingResponseQueue w') ! headPos (watingResponseQueue w) = c2 \<and>
          trace w' = trace w @ callback_events c2 \<and>
          rxWaiting w' = rxWaiting w \<and> serialPort w' = serialPort w"
proof -
  let ?q = "watingResponseQueue w"
  let ?q1 = "?q\<lparr>buffer := (buffer ?q)[headPos ?q := c2]\<rparr>"
  let ?w1 = "call_parserFunc (set_slot w (headPos ?q) c2) c2"
  from head_slot [OF wf ws] have hdc: "buffer ?q ! headPos ?q = c" and pos: "0 < itemCount ?q"
    by simp_all
  from store_head [OF wf pos, of c2] ws have wf1: "queue_wf h ?q1" and ws1: "waiting h ?q1 = c2 # cs"
    by simp_all
  have pos1: "0 < itemCount ?q1" using pos by simp
  from shift_ok [OF wf1 pos1] ws1 obtain q2 where
    q2: "rcdeviceRespCtxQueueShift h ?q1 = (Some (headPos ?q1), q2)" "queue_wf h q2"
      "waiting h q2 = cs" "buffer q2 = buffer ?q1"
    by auto
  have q1: "watingResponseQueue ?w1 = ?q1"
    by (simp add: set_slot_def)
  have "snd (rcdeviceRespCtxQueueShift h (watingResponseQueue ?w1)) = q2"
    unfolding q1 using q2(1) by simp
  then have r: "receive_byte h (headPos ?q) b w = Inr (?w1\<lparr>watingResponseQueue := q2\<rparr>)"
    using fit full ok by (simp add: receive_byte_def hdc Let_def)
  have "headPos ?q < length (buffer ?q)" using wf by (simp add: queue_wf_def)
  then have "buffer q2 ! headPos ?q = c2" using q2(4) by simp
  then show ?thesis
    unfolding r using q2(2,3) by (simp add: trace_call_parserFunc)
qed

lemma flush_loop_Nil [simp]: "flush_loop bs = []"
  by (induction bs) simp_all

lemma send_request_world:
  assumes "length params \<le> RCDEVICE_PROTOCOL_MAX_DATA_SIZE h"
  shows "runcamDeviceSendRequestAndWaitingResp h w now cmd params tmo retry ui pf =
     Inr \<lparr>watingResponseQueue =
            snd (rcdeviceRespCtxQueuePushRespCtx h (watingResponseQueue w)
                   (new_responseCtx h now cmd params tmo retry ui pf)),
          serialPort = serialPort w, rxWaiting = [],
          trace = trace w @ (if serialPort w then [Written (packet h cmd params)] else [])\<rparr>"
  using assms
  by (simp add: runcamDeviceSendRequestAndWaitingResp_def runcamDeviceFlushRxBuffer_def
      runcamDeviceSendPacket_def Let_def split_beta)

lemma send_request_overrun:
  "RCDEVICE_PROTOCOL_MAX_DATA_SIZE h < length params \<Longrightarrow>
     runcamDeviceSendRequestAndWaitingResp h w now cmd params tmo retry ui pf
       = Inl ParamDataOutOfBounds"
  by (simp add: runcamDeviceSendRequestAndWaitingResp_def Let_def)

lemma push_waiting:
  assumes "queue_wf h q"
  shows "queue_wf h (snd (rcdeviceRespCtxQueuePushRespCtx h q c)) \<and>
         waiting h (snd (rcdeviceRespCtxQueuePushRespCtx h q c))
           = (if itemCount q < MAX_WAITING_RESPONSES h then waiting h q @ [c] else waiting h q)"
proof (cases "itemCount q < MAX_WAITING_RESPONSES h")
  case True
  from push_ok [OF assms True, of c] show ?thesis using True by auto
next
  case False
  with assms have "itemCount q = MAX_WAITING_RESPONSES h" by (simp add: queue_wf_def)
  from push_full [OF this, of c] assms False show ?thesis by simp
qed

lemma example_world_count:
  "length cs \<le> 20 \<Longrightarrow> itemCount (watingResponseQueue (example_world cs rx)) = length cs"
  using waiting_length [of example_h "watingResponseQueue (example_world cs rx)"]
    example_world_waiting(2) [of cs rx] by simp

lemma example_world_no_port_fields:
  "itemCount (watingResponseQueue example_world_no_port) = 20"
  "\<not> serialPort example_world_no_port" "rxWaiting example_world_no_port = []"
  "trace example_world_no_port = []"
  "waiting example_h (watingResponseQueue example_world_no_port) = replicate 20 example_ctx_info"
  using example_world_count [of "replicate 20 example_ctx_info" "[]"]
    example_world_waiting(2) [of "replicate 20 example_ctx_info" "[]"]
  by (simp_all add: example_world_no_port_def) (simp_all add: example_world_def)

lemma getWaitingResponse_Some_peek:
  "getWaitingResponse h now w = (Some i, w') \<Longrightarrow>
     rcdeviceRespCtxQueuePeekFront h (watingResponseQueue w') = Some i"
proof (induction h now w rule: getWaitingResponse.induct)
  case (1 h now w)
  show ?case
  proof (cases "rcdeviceRespCtxQueuePeekFront h (watingResponseQueue w)")
    case None
    with "1.prems" show ?thesis
      by (subst (asm) getWaitingResponse.simps) simp
  next
    case (Some j)
    let ?c = "buffer (watingResponseQueue w) ! j"
    show ?thesis
    proof (cases "timed_out now ?c")
      case False
      with "1.prems" Some show ?thesis
        by (subst (asm) getWaitingResponse.simps) auto
    next
      case True
      show ?thesis
      proof (cases "maxRetryTimes ?c > 0")
        case retry: True
        with "1.prems" Some True show ?thesis
          by (subst (asm) getWaitingResponse.simps) simp
      next
        case False
        with "1.prems" Some True
        have "getWaitingResponse h now (timeout_slot h j w) = (Some i, w')"
          by (subst (asm) getWaitingResponse.simps) simp
        from "1.IH" [OF Some True False this] show ?thesis .
      qed
    qed
  qed
qed

lemma rcdeviceReceive_loop_reachable:
  "reachable h w \<Longrightarrow> rcdeviceReceive_loop h millis k w = Inr w' \<Longrightarrow> reachable h w'"
proof (induction h millis k w rule: rcdeviceReceive_loop.induct)
  case (1 h millis k w)
  obtain r w1 where g: "getWaitingResponse h (millis k) w = (r, w1)"
    by (cases "getWaitingResponse h (millis k) w")
  have r1: "reachable h w1" using "1.prems"(1) g by (rule reachable.supervise)
  show ?case
  proof (cases r)
    case None
    with "1.prems"(2) g r1 show ?thesis
      by (subst (asm) rcdeviceReceive_loop.simps) simp
  next
    case (Some i)
    show ?thesis
    proof (cases "rxWaiting w1")
      case Nil
      with "1.prems"(2) g r1 Some show ?thesis
        by (subst (asm) rcdeviceReceive_loop.simps) simp
    next
      case (Cons b rest)
      from "1.prems"(2) g Some Cons obtain w2 where
        w2: "receive_byte h i b (w1\<lparr>rxWaiting := rest\<rparr>) = Inr w2"
          "rcdeviceReceive_loop h millis (Suc k) w2 = Inr w'"
        by (subst (asm) rcdeviceReceive_loop.simps) (auto split: sum.splits)
      have pk: "rcdeviceRespCtxQueuePeekFront h (watingResponseQueue w1) = Some i"
        using g Some getWaitingResponse_Some_peek by simp
      have "reachable h w2" using r1 Cons pk w2(1) by (rule reachable.byte)
      from "1.IH" [OF g [symmetric] Some Cons w2(1) this w2(2)] show ?thesis .
    qed
  qed
qed

section \<open>A request on a full ring\<close>

text \<open>
  Claim C8, amended. When the ring is full, \<^verbatim>\<open>runcamDeviceSendRequestAndWaitingResp\<close>
  leaves the ring as it was, so the request's context and callback are stored nowhere and
  can never be called, and no error comes back. When the device's serial port is set, the
  frame of the command and parameters (header, command, parameter bytes, checksum of all
  of them) is written to the port whether or not the push succeeds, and on a full ring
  that write and the flushing of the received bytes are all that happens. When the port is
  not set, nothing is written: on a full ring the request then has no effect but the
  flushing.
\<close>

theorem request_on_full_ring_dropped_but_sent:
  "(length params \<le> RCDEVICE_PROTOCOL_MAX_DATA_SIZE h \<and>
    itemCount (watingResponseQueue w) = MAX_WAITING_RESPONSES h \<and> serialPort w \<longrightarrow>
      runcamDeviceSendRequestAndWaitingResp h w now cmd params tmo retry ui pf
        = Inr (w\<lparr>rxWaiting := [],
                 trace := trace w
                   @ [Written (RCDEVICE_PROTOCOL_HEADER h # cmd # params
                        @ [foldl (crc8_dvb_s2 h) 0 (RCDEVICE_PROTOCOL_HEADER h # cmd # params)])]\<rparr>)) \<and>
   (length params \<le> RCDEVICE_PROTOCOL_MAX_DATA_SIZE h \<and> serialPort w \<longrightarrow>
      (\<exists>w'. runcamDeviceSendRequestAndWaitingResp h w now cmd params tmo retry ui pf = Inr w' \<and>
            watingResponseQueue w'
              = snd (rcdeviceRespCtxQueuePushRespCtx h (watingResponseQueue w)
                       (new_responseCtx h now cmd params tmo retry ui pf)) \<and>
            trace w' = trace w
              @ [Written (RCDEVICE_PROTOCOL_HEADER h # cmd # params
                   @ [foldl (crc8_dvb_s2 h) 0 (RCDEVICE_PROTOCOL_HEADER h # cmd # params)])])) \<and>
   (length params \<le> RCDEVICE_PROTOCOL_MAX_DATA_SIZE h \<and>
    itemCount (watingResponseQueue u) = MAX_WAITING_RESPONSES h \<and> \<not> serialPort u \<longrightarrow>
      runcamDeviceSendRequestAndWaitingResp h u now cmd params tmo retry ui pf
        = Inr (u\<lparr>rxWaiting := []\<rparr>)) \<and>
   (length params \<le> RCDEVICE_PROTOCOL_MAX_DATA_SIZE h \<and> \<not> serialPort u \<longrightarrow>
      (\<exists>u'. runcamDeviceSendRequestAndWaitingResp h u now cmd params tmo retry ui pf = Inr u' \<and>
            trace u' = trace u))"
proof -
  have full: "rcdeviceRespCtxQueuePushRespCtx h (watingResponseQueue x)
      (new_responseCtx h now cmd params tmo retry ui pf) = (False, watingResponseQueue x)"
    if "itemCount (watingResponseQueue x) = MAX_WAITING_RESPONSES h" for x
    using that by (simp add: push_full)
  have a: "runcamDeviceSendRequestAndWaitingResp h w now cmd params tmo retry ui pf
        = Inr (w\<lparr>rxWaiting := [],
                 trace := trace w
                   @ [Written (RCDEVICE_PROTOCOL_HEADER h # cmd # params
                        @ [foldl (crc8_dvb_s2 h) 0 (RCDEVICE_PROTOCOL_HEADER h # cmd # params)])]\<rparr>)"
    if "length params \<le> RCDEVICE_PROTOCOL_MAX_DATA_SIZE h \<and>
      itemCount (watingResponseQueue w) = MAX_WAITING_RESPONSES h \<and> serialPort w"
    using that full [of w]
    by (simp add: runcamDeviceSendRequestAndWaitingResp_def runcamDeviceFlushRxBuffer_def
        runcamDeviceSendPacket_def packet_def crc8_dvb_s2_sbuf_append_def Let_def)
  have b: "\<exists>w'. runcamDeviceSendRequestAndWaitingResp h w now cmd params tmo retry ui pf = Inr w' \<and>
            watingResponseQueue w'
              = snd (rcdeviceRespCtxQueuePushRespCtx h (watingResponseQueue w)
                       (new_responseCtx h now cmd params tmo retry ui pf)) \<and>
            trace w' = trace w
              @ [Written (RCDEVICE_PROTOCOL_HEADER h # cmd # params
                   @ [foldl (crc8_dvb_s2 h) 0 (RCDEVICE_PROTOCOL_HEADER h # cmd # params)])]"
    if "length params \<le> RCDEVICE_PROTOCOL_MAX_DATA_SIZE h \<and> serialPort w"
    using that
    by (simp add: runcamDeviceSendRequestAndWaitingResp_def runcamDeviceFlushRxBuffer_def
        runcamDeviceSendPacket_def packet_def crc8_dvb_s2_sbuf_append_def Let_def split_beta)
  have c: "runcamDeviceSendRequestAndWaitingResp h u now cmd params tmo retry ui pf
        = Inr (u\<lparr>rxWaiting := []\<rparr>)"
    if "length params \<le> RCDEVICE_PROTOCOL_MAX_DATA_SIZE h \<and>
      itemCount (watingResponseQueue u) = MAX_WAITING_RESPONSES h \<and> \<not> serialPort u"
    using that full [of u]
    by (simp add: runcamDeviceSendRequestAndWaitingResp_def runcamDeviceFlushRxBuffer_def
        runcamDeviceSendPacket_def Let_def)
  have d: "\<exists>u'. runcamDeviceSendRequestAndWaitingResp h u now cmd params tmo retry ui pf = Inr u' \<and>
            trace u' = trace u"
    if "length params \<le> RCDEVICE_PROTOCOL_MAX_DATA_SIZE h \<and> \<not> serialPort u"
    using that
    by (simp add: runcamDeviceSendRequestAndWaitingResp_def runcamDeviceFlushRxBuffer_def
        runcamDeviceSendPacket_def Let_def split_beta)
  from a b c d show ?thesis by blast
qed

theorem request_on_full_ring_dropped_but_sent_witness:
  "length [0x01 :: u8] \<le> RCDEVICE_PROTOCOL_MAX_DATA_SIZE example_h \<and>
   itemCount (watingResponseQueue (example_world (replicate 20 example_ctx_info) [0x55]))
     = MAX_WAITING_RESPONSES example_h \<and>
   serialPort (example_world (replicate 20 example_ctx_info) [0x55]) \<and>
   itemCount (watingResponseQueue example_world_no_port) = MAX_WAITING_RESPONSES example_h \<and>
   \<not> serialPort example_world_no_port \<and>
   runcamDeviceSendRequestAndWaitingResp example_h
       (example_world (replicate 20 example_ctx_info) [0x55]) 1000 0x04 [0x01] 200 1 None (Some 1)
     = Inr ((example_world (replicate 20 example_ctx_info) [0x55])
              \<lparr>rxWaiting := [], trace := [Written [0xCC, 0x04, 0x01, 0xC0]]\<rparr>) \<and>
   waiting example_h (watingResponseQueue ((example_world (replicate 20 example_ctx_info) [0x55])
              \<lparr>rxWaiting := [], trace := [Written [0xCC, 0x04, 0x01, 0xC0]]\<rparr>))
     = replicate 20 example_ctx_info \<and>
   runcamDeviceSendRequestAndWaitingResp example_h example_world_no_port
       1000 0x04 [0x01] 200 1 None (Some 1)
     = Inr example_world_no_port"
proof -
  let ?w = "example_world (replicate 20 example_ctx_info) [0x55]"
  have a: "length [0x01 :: u8] \<le> RCDEVICE_PROTOCOL_MAX_DATA_SIZE example_h" by simp
  have b: "itemCount (watingResponseQueue ?w) = MAX_WAITING_RESPONSES example_h"
    "serialPort ?w" "trace ?w = []"
    "waiting example_h (watingResponseQueue ?w) = replicate 20 example_ctx_info"
    using example_world_waiting [of "replicate 20 example_ctx_info" "[0x55]"]
    by (simp_all add: example_world_count)
  have c: "itemCount (watingResponseQueue example_world_no_port) = MAX_WAITING_RESPONSES example_h"
    "\<not> serialPort example_world_no_port"
    by (simp_all add: example_world_no_port_fields)
  have d: "example_world_no_port\<lparr>rxWaiting := []\<rparr> = example_world_no_port"
    by (simp add: example_world_no_port_def example_world_def)
  have e: "foldl (crc8_dvb_s2 example_h) 0 [0xCC, 0x04, 0x01] = 0xC0"
    by (simp add: example_crc_shift_numeral)
  from request_on_full_ring_dropped_but_sent [where params = "[0x01]" and h = example_h
      and w = ?w and u = example_world_no_port and now = 1000 and cmd = "0x04" and tmo = 200
      and retry = 1 and ui = None and pf = "Some 1"]
    a b c d e show ?thesis by simp
qed

text \<open>
  The claim as it was stated fails on a device whose serial port is not set: with the ring
  full, the request below is dropped and no frame is written either; the state is left
  as it was.
\<close>

theorem request_without_port_counterexample:
  "length [0x01 :: u8] \<le> RCDEVICE_PROTOCOL_MAX_DATA_SIZE example_h \<and>
   itemCount (watingResponseQueue example_world_no_port) = MAX_WAITING_RESPONSES example_h \<and>
   trace example_world_no_port = [] \<and>
   runcamDeviceSendRequestAndWaitingResp example_h example_world_no_port
       1000 0x04 [0x01] 200 1 None (Some 1)
     = Inr example_world_no_port"
proof -
  have "rcdeviceRespCtxQueuePushRespCtx example_h (watingResponseQueue example_world_no_port)
      (new_responseCtx example_h 1000 0x04 [0x01] 200 1 None (Some 1))
        = (False, watingResponseQueue example_world_no_port)"
    by (simp add: push_full example_world_no_port_fields)
  moreover have "example_world_no_port\<lparr>rxWaiting := []\<rparr> = example_world_no_port"
    by (simp add: example_world_no_port_def example_world_def)
  ultimately show ?thesis
    by (simp add: runcamDeviceSendRequestAndWaitingResp_def runcamDeviceFlushRxBuffer_def
        runcamDeviceSendPacket_def Let_def example_world_no_port_fields)
qed

section \<open>Only version 1.0 contexts are ever waiting\<close>

lemma verify_crc_protocolVer:
  "verify_crc h c = Inr c2 \<Longrightarrow> protocolVer c2 = protocolVer c"
  by (auto simp: verify_crc_def Let_def split: if_splits)

lemma receive_byte_Inr:
  assumes wf: "queue_wf h (watingResponseQueue w)" and ws: "waiting h (watingResponseQueue w) = c # cs"
    and r: "receive_byte h (headPos (watingResponseQueue w)) b w = Inr w'"
  shows "unat (recvRespLen c) < length (recvBuf c) \<and>
         queue_wf h (watingResponseQueue w') \<and>
         rxWaiting w' = rxWaiting w \<and> serialPort w' = serialPort w \<and>
         (if recvRespLen c + 1 = expectedRespLen c
          then (\<exists>c2. verify_crc h (c\<lparr>recvBuf := (recvBuf c)[unat (recvRespLen c) := b],
                                         recvRespLen := recvRespLen c + 1\<rparr>) = Inr c2 \<and>
                     waiting h (watingResponseQueue w') = cs \<and>
                     trace w' = trace w @ callback_events c2)
          else waiting h (watingResponseQueue w')
                 = c\<lparr>recvBuf := (recvBuf c)[unat (recvRespLen c) := b],
                      recvRespLen := recvRespLen c + 1\<rparr> # cs \<and>
               trace w' = trace w)"
proof -
  let ?c1 = "c\<lparr>recvBuf := (recvBuf c)[unat (recvRespLen c) := b], recvRespLen := recvRespLen c + 1\<rparr>"
  have fit: "unat (recvRespLen c) < length (recvBuf c)"
  proof (rule ccontr)
    assume "\<not> ?thesis"
    then have "length (recvBuf c) \<le> unat (recvRespLen c)" by simp
    from receive_byte_overrun [OF wf ws this, of b] r show False by simp
  qed
  show ?thesis
  proof (cases "recvRespLen c + 1 = expectedRespLen c")
    case False
    from receive_byte_more [OF wf ws fit False, of b] r fit False show ?thesis by auto
  next
    case True
    from head_slot [OF wf ws] have hdc: "buffer (watingResponseQueue w) ! headPos (watingResponseQueue w) = c"
      by simp
    obtain c2 where c2: "verify_crc h ?c1 = Inr c2"
    proof (cases "verify_crc h ?c1")
      case (Inl ub)
      with r fit True have False by (simp add: receive_byte_def hdc Let_def)
      then show ?thesis ..
    next
      case (Inr c2)
      then show ?thesis by (rule that)
    qed
    from receive_byte_complete [OF wf ws fit True c2] r fit True c2 show ?thesis by auto
  qed
qed

lemma reachable_version_1_0:
  "reachable h w \<Longrightarrow>
     queue_wf h (watingResponseQueue w) \<and>
     (\<forall>c\<in>set (waiting h (watingResponseQueue w)). protocolVer c = RCDEVICE_PROTOCOL_VERSION_1_0)"
proof (induction rule: reachable.induct)
  case (start w)
  then show ?case by (simp add: waiting_def)
next
  case (request w now cmd params tmo retry ui pf w')
  have "length params \<le> RCDEVICE_PROTOCOL_MAX_DATA_SIZE h"
  proof (rule ccontr)
    assume "\<not> ?thesis"
    then have "RCDEVICE_PROTOCOL_MAX_DATA_SIZE h < length params" by simp
    from send_request_overrun [OF this] request.hyps(2) show False by simp
  qed
  from send_request_world [OF this, of w now cmd tmo retry ui pf] request.hyps(2)
  have q: "watingResponseQueue w' =
      snd (rcdeviceRespCtxQueuePushRespCtx h (watingResponseQueue w)
             (new_responseCtx h now cmd params tmo retry ui pf))"
    by auto
  from request.IH push_waiting [of h "watingResponseQueue w"
      "new_responseCtx h now cmd params tmo retry ui pf"]
  show ?case
    unfolding q by (auto simp: new_responseCtx_def)
next
  case (button w cmd params)
  then show ?case by simp
next
  case (arrival w bs)
  then show ?case by simp
next
  case (supervise w now r w')
  from getWaitingResponse_keeps [where P = "\<lambda>c. protocolVer c = RCDEVICE_PROTOCOL_VERSION_1_0"
      and h = h and w = w and now = now] supervise.IH supervise.hyps(2)
  show ?case by auto
next
  case (byte w b rest i w')
  let ?w = "w\<lparr>rxWaiting := rest\<rparr>"
  from byte.hyps(3) have i: "i = headPos (watingResponseQueue w)"
    and pos: "0 < itemCount (watingResponseQueue w)"
    by (simp_all add: peek_Some_iff)
  from byte.IH have wf: "queue_wf h (watingResponseQueue ?w)" by simp
  from waiting_nonempty [OF wf] pos obtain c cs where
    ws: "waiting h (watingResponseQueue ?w) = c # cs" by auto
  from byte.IH ws have v: "protocolVer c = RCDEVICE_PROTOCOL_VERSION_1_0"
    "\<forall>x\<in>set cs. protocolVer x = RCDEVICE_PROTOCOL_VERSION_1_0"
    by simp_all
  from receive_byte_Inr [OF wf ws, of b w'] byte.hyps(4) i v show ?case
    by (auto split: if_splits)
qed

text \<open>
  Claim C9. The send path sets the protocol version of every context it pushes to version
  1.0, and nothing changes it afterwards. So in every state the engine can get into, each
  waiting context has version 1.0, and so has every context the supervisor hands to the
  receive loop: the legacy branch of the check, taken only for the RCSPLIT version, is
  never run. (The states after a whole call of \<^verbatim>\<open>rcdeviceReceive\<close> are among them.)
\<close>

theorem only_version_1_0_waiting:
  assumes "reachable h w"
  shows "(\<forall>c\<in>set (waiting h (watingResponseQueue w)).
            protocolVer c = RCDEVICE_PROTOCOL_VERSION_1_0) \<and>
         (\<forall>now i w1. getWaitingResponse h now w = (Some i, w1) \<longrightarrow>
            protocolVer (buffer (watingResponseQueue w1) ! i) = RCDEVICE_PROTOCOL_VERSION_1_0) \<and>
         (\<forall>millis w'. rcdeviceReceive h millis w = Inr w' \<longrightarrow> reachable h w')"
proof (intro conjI allI impI)
  show "\<forall>c\<in>set (waiting h (watingResponseQueue w)). protocolVer c = RCDEVICE_PROTOCOL_VERSION_1_0"
    using reachable_version_1_0 [OF assms] by simp
next
  fix now i w1
  assume g: "getWaitingResponse h now w = (Some i, w1)"
  from assms g have "reachable h w1" by (rule reachable.supervise)
  from reachable_version_1_0 [OF this] have wf: "queue_wf h (watingResponseQueue w1)"
    and v: "\<forall>c\<in>set (waiting h (watingResponseQueue w1)). protocolVer c = RCDEVICE_PROTOCOL_VERSION_1_0"
    by simp_all
  from getWaitingResponse_Some_peek [OF g] have i: "i = headPos (watingResponseQueue w1)"
    and pos: "0 < itemCount (watingResponseQueue w1)"
    by (simp_all add: peek_Some_iff)
  from waiting_nonempty [OF wf pos] have "buffer (watingResponseQueue w1) ! i
      \<in> set (waiting h (watingResponseQueue w1))"
    unfolding i by (metis list.set_intros(1))
  with v show "protocolVer (buffer (watingResponseQueue w1) ! i) = RCDEVICE_PROTOCOL_VERSION_1_0"
    by simp
next
  fix millis w'
  assume "rcdeviceReceive h millis w = Inr w'"
  with assms show "reachable h w'"
    unfolding rcdeviceReceive_def by (rule rcdeviceReceive_loop_reachable)
qed

theorem only_version_1_0_waiting_witness:
  "reachable example_h
     ((example_world [example_ctx_info] [])\<lparr>trace := [Written (packet example_h 0x00 [])]\<rparr>) \<and>
   waiting example_h (watingResponseQueue
     ((example_world [example_ctx_info] [])\<lparr>trace := [Written (packet example_h 0x00 [])]\<rparr>))
     = [example_ctx_info] \<and>
   protocolVer example_ctx_info = RCDEVICE_PROTOCOL_VERSION_1_0"
proof -
  let ?e = "example_world [] []"
  let ?w = "(example_world [example_ctx_info] [])\<lparr>trace := [Written (packet example_h 0x00 [])]\<rparr>"
  have "reachable example_h ?e"
    using example_world_waiting(1) [of "[]" "[]"] example_world_count [of "[]" "[]"]
    by (intro reachable.start) simp_all
  moreover have "runcamDeviceSendRequestAndWaitingResp example_h ?e 1000 0x00 [] 5000 0 None (Some 2)
      = Inr ?w"
    by (simp add: send_request_world example_world_def example_ctx_info_def split_beta)
  ultimately have r: "reachable example_h ?w" by (rule reachable.request)
  have ws: "waiting example_h (watingResponseQueue ?w) = [example_ctx_info]"
    using example_world_waiting(2) [of "[example_ctx_info]" "[]"] by simp
  from only_version_1_0_waiting [OF r] ws
  have "protocolVer example_ctx_info = RCDEVICE_PROTOCOL_VERSION_1_0" by simp
  with r ws show ?thesis by simp
qed

section \<open>The receive loop stays within the receive array\<close>

lemma ctx_bounded_retry:
  "ctx_bounded h c \<Longrightarrow> ctx_bounded h (c\<lparr>timeoutTimestamp := d, maxRetryTimes := r\<rparr>)"
  by (simp add: ctx_bounded_def)

lemma verify_crc_bounded:
  "ctx_bounded h c \<Longrightarrow>
     \<exists>c2. verify_crc h (c\<lparr>recvBuf := (recvBuf c)[unat (recvRespLen c) := b],
                            recvRespLen := recvRespLen c + 1\<rparr>) = Inr c2"
  by (auto simp: verify_crc_def ctx_bounded_def Let_def)

lemma unat_next_len:
  fixes n e :: u8
  assumes "unat n < unat e"
  shows "unat (n + 1) = unat n + 1"
proof -
  have "unat e < 2 ^ LENGTH(8)" by (rule unsigned_less)
  with assms have "unat n + unat (1 :: u8) < 2 ^ LENGTH(8)" by simp
  then have "unat (n + 1) = unat n + unat (1 :: u8)" by (simp only: unat_add_lem)
  then show ?thesis by simp
qed

lemma ctx_bounded_more:
  assumes "ctx_bounded h c" "recvRespLen c + 1 \<noteq> expectedRespLen c"
  shows "ctx_bounded h (c\<lparr>recvBuf := (recvBuf c)[unat (recvRespLen c) := b],
                           recvRespLen := recvRespLen c + 1\<rparr>)"
proof -
  from assms(1) have lt: "unat (recvRespLen c) < unat (expectedRespLen c)"
    by (simp add: ctx_bounded_def)
  have "unat (recvRespLen c + 1) \<noteq> unat (expectedRespLen c)"
    using assms(2) by (simp add: word_unat_eq_iff)
  with unat_next_len [OF lt] lt have "unat (recvRespLen c + 1) < unat (expectedRespLen c)"
    by simp
  with assms(1) show ?thesis by (simp add: ctx_bounded_def)
qed

lemma receive_byte_bounded:
  assumes inv: "engine_inv h w" and ws: "waiting h (watingResponseQueue w) = c # cs"
  shows "\<exists>w'. receive_byte h (headPos (watingResponseQueue w)) b w = Inr w' \<and> engine_inv h w' \<and>
          rxWaiting w' = rxWaiting w \<and>
          unat (recvRespLen (buffer (watingResponseQueue w') ! headPos (watingResponseQueue w)))
            \<le> unat (expectedRespLen (buffer (watingResponseQueue w') ! headPos (watingResponseQueue w)))"
proof -
  from inv have wf: "queue_wf h (watingResponseQueue w)" by (simp add: engine_inv_def)
  from inv ws have cb: "ctx_bounded h c" and rest: "\<forall>x\<in>set cs. ctx_bounded h x"
    by (simp_all add: engine_inv_def)
  from cb have fit: "unat (recvRespLen c) < length (recvBuf c)"
    and lt: "unat (recvRespLen c) < unat (expectedRespLen c)"
    by (simp_all add: ctx_bounded_def)
  let ?c1 = "c\<lparr>recvBuf := (recvBuf c)[unat (recvRespLen c) := b], recvRespLen := recvRespLen c + 1\<rparr>"
  have hd: "headPos (watingResponseQueue w) < length (buffer (watingResponseQueue w))"
    using wf by (simp add: queue_wf_def)
  show ?thesis
  proof (cases "recvRespLen c + 1 = expectedRespLen c")
    case False
    from receive_byte_more [OF wf ws fit False, of b] obtain w' where
      w': "receive_byte h (headPos (watingResponseQueue w)) b w = Inr w'"
        "queue_wf h (watingResponseQueue w')" "waiting h (watingResponseQueue w') = ?c1 # cs"
        "headPos (watingResponseQueue w') = headPos (watingResponseQueue w)"
        "rxWaiting w' = rxWaiting w"
      by blast
    note b1 = ctx_bounded_more [OF cb False, of b]
    from head_slot [OF w'(2,3)] w'(4)
    have "buffer (watingResponseQueue w') ! headPos (watingResponseQueue w) = ?c1" by simp
    moreover have "unat (recvRespLen ?c1) \<le> unat (expectedRespLen ?c1)"
      using b1 by (simp add: ctx_bounded_def)
    ultimately show ?thesis
      using w' b1 rest by (auto simp: engine_inv_def)
  next
    case True
    from verify_crc_bounded [OF cb, of b] obtain c2 where c2: "verify_crc h ?c1 = Inr c2" by blast
    from receive_byte_complete [OF wf ws fit True c2] obtain w' where
      w': "receive_byte h (headPos (watingResponseQueue w)) b w = Inr w'"
        "queue_wf h (watingResponseQueue w')" "waiting h (watingResponseQueue w') = cs"
        "buffer (watingResponseQueue w') ! headPos (watingResponseQueue w) = c2"
        "rxWaiting w' = rxWaiting w"
      by blast
    have "recvRespLen c2 = recvRespLen ?c1 \<and> expectedRespLen c2 = expectedRespLen ?c1"
      using c2 by (auto simp: verify_crc_def Let_def split: if_splits)
    with True have "unat (recvRespLen c2) \<le> unat (expectedRespLen c2)" by simp
    with w' rest show ?thesis by (auto simp: engine_inv_def)
  qed
qed

lemma getWaitingResponse_bounded:
  assumes "engine_inv h w"
  shows "\<exists>r w'. getWaitingResponse h now w = (r, w') \<and> engine_inv h w' \<and>
          rxWaiting w' = rxWaiting w \<and>
          (\<forall>i. r = Some i \<longrightarrow>
             i = headPos (watingResponseQueue w') \<and> waiting h (watingResponseQueue w') \<noteq> [])"
  using getWaitingResponse_keeps [where P = "ctx_bounded h" and h = h and w = w and now = now]
    assms ctx_bounded_retry
  unfolding engine_inv_def by blast

lemma rcdeviceReceive_loop_bounded:
  "engine_inv h w \<Longrightarrow> \<exists>w'. rcdeviceReceive_loop h millis k w = Inr w' \<and> engine_inv h w'"
proof (induction h millis k w rule: rcdeviceReceive_loop.induct)
  case (1 h millis k w)
  from getWaitingResponse_bounded [OF "1.prems", of "millis k"] obtain r w1 where
    g: "getWaitingResponse h (millis k) w = (r, w1)" and inv1: "engine_inv h w1"
    and hd: "\<forall>i. r = Some i \<longrightarrow>
      i = headPos (watingResponseQueue w1) \<and> waiting h (watingResponseQueue w1) \<noteq> []"
    by blast
  show ?case
  proof (cases r)
    case None
    with g inv1 show ?thesis
      by (subst rcdeviceReceive_loop.simps) simp
  next
    case (Some i)
    show ?thesis
    proof (cases "rxWaiting w1")
      case Nil
      with g inv1 Some show ?thesis
        by (subst rcdeviceReceive_loop.simps) simp
    next
      case (Cons b rest)
      let ?w = "w1\<lparr>rxWaiting := rest\<rparr>"
      have inv: "engine_inv h ?w" using inv1 by (simp add: engine_inv_def)
      from hd Some obtain c cs where ws: "waiting h (watingResponseQueue ?w) = c # cs"
        and i: "i = headPos (watingResponseQueue ?w)"
        by (cases "waiting h (watingResponseQueue w1)") auto
      from receive_byte_bounded [OF inv ws, of b] i obtain w2 where
        w2: "receive_byte h i b ?w = Inr w2" "engine_inv h w2"
        by auto
      from "1.IH" [OF g [symmetric] Some Cons w2(1) w2(2)] obtain w' where
        "rcdeviceReceive_loop h millis (Suc k) w2 = Inr w'" "engine_inv h w'"
        by blast
      with g Some Cons w2(1) show ?thesis
        by (subst rcdeviceReceive_loop.simps) simp
    qed
  qed
qed

lemma send_request_bounded:
  assumes inv: "engine_inv h w"
    and r: "runcamDeviceSendRequestAndWaitingResp h w now cmd params tmo retry ui pf = Inr w'"
    and len: "runcamDeviceGetRespLen h cmd \<noteq> 0"
      "unat (runcamDeviceGetRespLen h cmd) \<le> RCDEVICE_PROTOCOL_MAX_PACKET_SIZE h"
  shows "engine_inv h w'"
proof -
  let ?c = "new_responseCtx h now cmd params tmo retry ui pf"
  have "length params \<le> RCDEVICE_PROTOCOL_MAX_DATA_SIZE h"
  proof (rule ccontr)
    assume "\<not> ?thesis"
    then have "RCDEVICE_PROTOCOL_MAX_DATA_SIZE h < length params" by simp
    from send_request_overrun [OF this] r show False by simp
  qed
  from send_request_world [OF this, of w now cmd tmo retry ui pf] r
  have q: "watingResponseQueue w' = snd (rcdeviceRespCtxQueuePushRespCtx h (watingResponseQueue w) ?c)"
    by auto
  have "0 < unat (runcamDeviceGetRespLen h cmd)"
    using len(1) by (simp add: unat_gt_0)
  with len(2) have "ctx_bounded h ?c"
    by (simp add: ctx_bounded_def new_responseCtx_def)
  with inv push_waiting [of h "watingResponseQueue w" ?c] show ?thesis
    unfolding engine_inv_def q by auto
qed

lemma example_resp_len [simp]:
  "runcamDeviceGetRespLen example_h 0x04 = 3" "runcamDeviceGetRespLen example_h 0x00 = 5"
  "runcamDeviceGetRespLen example_h 0x01 = 0"
  by (simp_all add: runcamDeviceGetRespLen_def expectedResponsesLength_def)

lemma example_world_head:
  "headPos (watingResponseQueue (example_world cs rx)) = 0"
proof -
  have "headPos (snd (push_all h q cs)) = headPos q" for h q
    by (induction cs arbitrary: q)
       (simp_all add: split_beta rcdeviceRespCtxQueuePushRespCtx_def Let_def)
  then show ?thesis by (simp add: example_world_def empty_queue_def)
qed

text \<open>
  Claim C1, amended. If every waiting context has received fewer bytes than it expects,
  expects no more than its receive array holds (and, being of the legacy version, at least
  five), then a call of \<^verbatim>\<open>rcdeviceReceive\<close> ends without a store or load outside a receive
  array, in a state of the same kind. In each round of its loop the byte is stored at the
  index \<open>recvRespLen\<close>, which is below \<open>expectedRespLen\<close>, which is at most the size of the
  array; after the round \<open>recvRespLen \<le> expectedRespLen\<close> holds in that slot. The send
  path keeps such states when the command's length in the table is not 0 and at most the
  size of the array.
\<close>

theorem receive_within_bounds:
  "(engine_inv h w \<longrightarrow>
      (\<exists>w'. rcdeviceReceive h millis w = Inr w' \<and> engine_inv h w')) \<and>
   (engine_inv h w \<and> getWaitingResponse h now w = (Some i, w1) \<and> rxWaiting w1 = b # rest \<longrightarrow>
      unat (recvRespLen (buffer (watingResponseQueue w1) ! i))
        < unat (expectedRespLen (buffer (watingResponseQueue w1) ! i)) \<and>
      unat (expectedRespLen (buffer (watingResponseQueue w1) ! i))
        \<le> length (recvBuf (buffer (watingResponseQueue w1) ! i)) \<and>
      length (recvBuf (buffer (watingResponseQueue w1) ! i)) = RCDEVICE_PROTOCOL_MAX_PACKET_SIZE h \<and>
      (\<exists>w2. receive_byte h i b (w1\<lparr>rxWaiting := rest\<rparr>) = Inr w2 \<and> engine_inv h w2 \<and>
            unat (recvRespLen (buffer (watingResponseQueue w2) ! i))
              \<le> unat (expectedRespLen (buffer (watingResponseQueue w2) ! i)))) \<and>
   (engine_inv h w \<and>
    runcamDeviceSendRequestAndWaitingResp h w t cmd params tmo retry ui pf = Inr v \<and>
    runcamDeviceGetRespLen h cmd \<noteq> 0 \<and>
    unat (runcamDeviceGetRespLen h cmd) \<le> RCDEVICE_PROTOCOL_MAX_PACKET_SIZE h \<longrightarrow>
      engine_inv h v)"
proof -
  have one: "\<exists>w'. rcdeviceReceive h millis w = Inr w' \<and> engine_inv h w'" if "engine_inv h w"
    using that unfolding rcdeviceReceive_def by (rule rcdeviceReceive_loop_bounded)
  have two: "unat (recvRespLen (buffer (watingResponseQueue w1) ! i))
        < unat (expectedRespLen (buffer (watingResponseQueue w1) ! i)) \<and>
      unat (expectedRespLen (buffer (watingResponseQueue w1) ! i))
        \<le> length (recvBuf (buffer (watingResponseQueue w1) ! i)) \<and>
      length (recvBuf (buffer (watingResponseQueue w1) ! i)) = RCDEVICE_PROTOCOL_MAX_PACKET_SIZE h \<and>
      (\<exists>w2. receive_byte h i b (w1\<lparr>rxWaiting := rest\<rparr>) = Inr w2 \<and> engine_inv h w2 \<and>
            unat (recvRespLen (buffer (watingResponseQueue w2) ! i))
              \<le> unat (expectedRespLen (buffer (watingResponseQueue w2) ! i)))"
    if a: "engine_inv h w \<and> getWaitingResponse h now w = (Some i, w1) \<and> rxWaiting w1 = b # rest"
  proof -
    let ?w = "w1\<lparr>rxWaiting := rest\<rparr>"
    let ?c = "buffer (watingResponseQueue w1) ! i"
    from a getWaitingResponse_bounded [of h w now]
    have inv1: "engine_inv h w1" and i: "i = headPos (watingResponseQueue w1)"
      and ne: "waiting h (watingResponseQueue w1) \<noteq> []"
      by auto
    then obtain c cs where ws: "waiting h (watingResponseQueue w1) = c # cs"
      by (cases "waiting h (watingResponseQueue w1)") auto
    from inv1 have wf: "queue_wf h (watingResponseQueue w1)" by (simp add: engine_inv_def)
    from head_slot [OF wf ws] i have c: "?c = c" by simp
    from inv1 ws have cb: "ctx_bounded h c" by (simp add: engine_inv_def)
    have inv: "engine_inv h ?w" using inv1 by (simp add: engine_inv_def)
    have ws': "waiting h (watingResponseQueue ?w) = c # cs" using ws by simp
    from receive_byte_bounded [OF inv ws', of b] i
    have "\<exists>w2. receive_byte h i b ?w = Inr w2 \<and> engine_inv h w2 \<and>
              unat (recvRespLen (buffer (watingResponseQueue w2) ! i))
                \<le> unat (expectedRespLen (buffer (watingResponseQueue w2) ! i))"
      by auto
    with cb show ?thesis
      unfolding c by (simp add: ctx_bounded_def)
  qed
  have three: "engine_inv h v"
    if "engine_inv h w \<and>
      runcamDeviceSendRequestAndWaitingResp h w t cmd params tmo retry ui pf = Inr v \<and>
      runcamDeviceGetRespLen h cmd \<noteq> 0 \<and>
      unat (runcamDeviceGetRespLen h cmd) \<le> RCDEVICE_PROTOCOL_MAX_PACKET_SIZE h"
    using that send_request_bounded by blast
  from one two three show ?thesis by blast
qed

theorem receive_within_bounds_witness:
  "engine_inv example_h (example_world [example_ctx_connection] [0xCC, 0x04]) \<and>
   getWaitingResponse example_h 1100 (example_world [example_ctx_connection] [0xCC, 0x04])
     = (Some 0, example_world [example_ctx_connection] [0xCC, 0x04]) \<and>
   rxWaiting (example_world [example_ctx_connection] [0xCC, 0x04]) = [0xCC, 0x04] \<and>
   runcamDeviceGetRespLen example_h 0x04 \<noteq> 0 \<and>
   unat (runcamDeviceGetRespLen example_h 0x04) \<le> RCDEVICE_PROTOCOL_MAX_PACKET_SIZE example_h \<and>
   (\<exists>w'. rcdeviceReceive example_h (\<lambda>k. 1100) (example_world [example_ctx_connection] [0xCC, 0x04])
            = Inr w' \<and> engine_inv example_h w') \<and>
   (\<exists>w2. receive_byte example_h 0 0xCC (example_world [example_ctx_connection] [0x04]) = Inr w2 \<and>
         engine_inv example_h w2) \<and>
   (\<exists>v. runcamDeviceSendRequestAndWaitingResp example_h
            (example_world [example_ctx_connection] [0xCC, 0x04]) 1000 0x04 [0x01] 200 1 None (Some 1)
            = Inr v \<and> engine_inv example_h v)"
proof -
  let ?w = "example_world [example_ctx_connection] [0xCC, 0x04]"
  note e = example_world_waiting [of "[example_ctx_connection]" "[0xCC, 0x04]"]
  have cb: "ctx_bounded example_h example_ctx_connection"
    by (simp add: ctx_bounded_def example_ctx_connection_def new_responseCtx_def)
  have inv: "engine_inv example_h ?w"
    using e cb by (simp add: engine_inv_def)
  have g: "getWaitingResponse example_h 1100 ?w = (Some 0, ?w)"
    using e by (simp add: getWaitingResponse_head [where c = example_ctx_connection and cs = "[]"]
        timed_out_def example_world_head)
  have rx: "rxWaiting ?w = [0xCC, 0x04]" using e by simp
  have upd: "?w\<lparr>rxWaiting := [0x04]\<rparr> = example_world [example_ctx_connection] [0x04]"
    by (simp add: example_world_def)
  obtain v where v: "runcamDeviceSendRequestAndWaitingResp example_h ?w 1000 0x04 [0x01] 200 1 None
      (Some 1) = Inr v"
    using send_request_world [of "[0x01]" example_h ?w 1000 "0x04" 200 1 None "Some 1"] by simp
  have len: "runcamDeviceGetRespLen example_h 0x04 \<noteq> 0"
    "unat (runcamDeviceGetRespLen example_h 0x04) \<le> RCDEVICE_PROTOCOL_MAX_PACKET_SIZE example_h"
    by simp_all
  note t = receive_within_bounds [where h = example_h and w = ?w and millis = "\<lambda>k. 1100"
      and now = 1100 and i = 0 and ?w1.0 = ?w and b = "0xCC" and rest = "[0x04]"
      and t = 1000 and cmd = "0x04" and params = "[0x01]" and tmo = 200 and retry = 1
      and ui = None and pf = "Some 1" and v = v]
  from t inv have one: "\<exists>w'. rcdeviceReceive example_h (\<lambda>k. 1100) ?w = Inr w' \<and> engine_inv example_h w'"
    by blast
  from t inv g rx have two: "\<exists>w2. receive_byte example_h 0 0xCC (example_world [example_ctx_connection] [0x04])
      = Inr w2 \<and> engine_inv example_h w2"
    unfolding upd by blast
  from t inv v len have "engine_inv example_h v" by blast
  with v have three: "\<exists>v. runcamDeviceSendRequestAndWaitingResp example_h ?w 1000 0x04 [0x01] 200 1
      None (Some 1) = Inr v \<and> engine_inv example_h v"
    by blast
  from inv g rx len one two three show ?thesis by blast
qed

text \<open>
  The claim as it was stated includes a context whose expected length is 0. For it the
  claim fails: the byte \<open>0x55\<close> that arrives while it is at the head is stored at index 0,
  and the context then has received one byte with none expected.
\<close>

theorem receive_beyond_zero_length_counterexample:
  "expectedRespLen example_ctx_no_response = 0 \<and>
   rcdeviceReceive example_h (\<lambda>k. 1100) (example_world [example_ctx_no_response] [0x55])
     = Inr (set_slot (example_world [example_ctx_no_response] []) 0
              (example_ctx_no_response\<lparr>recvBuf := (recvBuf example_ctx_no_response)[0 := 0x55],
                                        recvRespLen := 1\<rparr>)) \<and>
   waiting example_h (watingResponseQueue
       (set_slot (example_world [example_ctx_no_response] []) 0
              (example_ctx_no_response\<lparr>recvBuf := (recvBuf example_ctx_no_response)[0 := 0x55],
                                        recvRespLen := 1\<rparr>)))
     = [example_ctx_no_response\<lparr>recvBuf := (recvBuf example_ctx_no_response)[0 := 0x55],
                                 recvRespLen := 1\<rparr>]"
proof -
  let ?c = example_ctx_no_response
  let ?c1 = "?c\<lparr>recvBuf := (recvBuf ?c)[0 := 0x55], recvRespLen := 1\<rparr>"
  let ?w = "example_world [?c] [0x55]"
  let ?e = "example_world [?c] []"
  let ?v = "set_slot ?e 0 ?c1"
  note e = example_world_waiting [of "[?c]" "[0x55]"]
  note f = example_world_waiting [of "[?c]" "[]"]
  have fields: "expectedRespLen ?c = 0" "recvRespLen ?c = 0" "timeoutTimestamp ?c = 1200"
    "length (recvBuf ?c) = 64"
    by (simp_all add: example_ctx_no_response_def new_responseCtx_def)
  have g1: "getWaitingResponse example_h 1100 ?w = (Some 0, ?w)"
    using e fields by (simp add: getWaitingResponse_head [where c = ?c and cs = "[]"]
        timed_out_def example_world_head)
  have upd: "?w\<lparr>rxWaiting := []\<rparr> = ?e" by (simp add: example_world_def)
  have hdc: "buffer (watingResponseQueue ?e) ! 0 = ?c"
    using head_slot [OF f(1,2)] by (simp add: example_world_head)
  have rb: "receive_byte example_h 0 0x55 ?e = Inr ?v"
    using fields by (simp add: receive_byte_def hdc Let_def)
  have pos: "0 < itemCount (watingResponseQueue ?e)"
    using example_world_count [of "[?c]" "[]"] by simp
  from store_head [OF f(1) pos, of ?c1] f(2)
  have v: "queue_wf example_h (watingResponseQueue ?v)"
    "waiting example_h (watingResponseQueue ?v) = [?c1]"
    by (simp_all add: queue_set_slot example_world_head)
  have g2: "getWaitingResponse example_h 1100 ?v = (Some 0, ?v)"
    using v fields by (simp add: getWaitingResponse_head [where c = ?c1 and cs = "[]"]
        timed_out_def example_world_head)
  have rxv: "rxWaiting ?v = []" using f by simp
  have "rcdeviceReceive_loop example_h (\<lambda>k. 1100) (Suc 0) ?v = Inr ?v"
    using g2 rxv by (subst rcdeviceReceive_loop.simps) simp
  then have "rcdeviceReceive example_h (\<lambda>k. 1100) ?w = Inr ?v"
    unfolding rcdeviceReceive_def using g1 e(3) rb upd
    by (subst rcdeviceReceive_loop.simps) simp
  with fields v show ?thesis by simp
qed

section \<open>The check of a complete response\<close>


















end
